theory Spec2Isabelle
  imports Complex_Main
begin

section \<open>Numbers rendered in template literals\<close>

text \<open>
  The identifiers of \<^verbatim>\<open>server-recap.js\<close> are built by template literals, which render a
  number in decimal. All numbers of the model are integers below \<open>2^53\<close> in magnitude,
  where JavaScript's doubles are exact.
\<close>

definition digit_char :: "nat \<Rightarrow> char" where
  "digit_char d = ''0123456789'' ! d"

fun show_nat :: "nat \<Rightarrow> string" where
  "show_nat n = (if n < 10 then [digit_char n] else show_nat (n div 10) @ [digit_char (n mod 10)])"

declare show_nat.simps [simp del]

definition show_int :: "int \<Rightarrow> string" where
  "show_int i = (if i < 0 then CHR ''-'' # show_nat (nat (- i)) else show_nat (nat i))"

section \<open>Clips and the clip store\<close>

text \<open>
  \<^verbatim>\<open>startTime\<close> of a stored clip is what the caller of \<^verbatim>\<open>createClip\<close> put there: the route
  \<^verbatim>\<open>POST /api/stream/:channelId/clip\<close> stores \<^verbatim>\<open>new Date(startTime)\<close>, a Date object that is
  valid or invalid; the category-change webhook stores \<^verbatim>\<open>lastSegmentStart\<close>, which is the
  plain number \<^verbatim>\<open>Date.now()\<close> gave.
\<close>

datatype js_time = DateObj int | InvalidDate | Num int

record clip =
  clip_id :: string
  category :: string
  title :: string
  startTime :: js_time
  endTime :: js_time
  processed :: bool

text \<open>
  \<^verbatim>\<open>x.getTime()\<close>: the milliseconds of a valid Date, NaN (here \<open>None\<close>) of an invalid one,
  and a TypeError on a number, which has no such method. \<open>Inl\<close> carries the message of the
  exception.
\<close>

fun getTime :: "js_time \<Rightarrow> string + int option" where
  "getTime (DateObj t) = Inr (Some t)"
| "getTime InvalidDate = Inr None"
| "getTime (Num n) = Inl ''clip.startTime.getTime is not a function''"

text \<open>\<^verbatim>\<open>a < b\<close> on numbers, false when the left side is NaN.\<close>

fun js_less :: "int option \<Rightarrow> int \<Rightarrow> bool" where
  "js_less None b = False"
| "js_less (Some a) b = (a < b)"

text \<open>The numeric value of \<^verbatim>\<open>startTime\<close> in an arithmetic expression.\<close>

fun valueOf :: "js_time \<Rightarrow> int option" where
  "valueOf (DateObj t) = Some t"
| "valueOf InvalidDate = None"
| "valueOf (Num n) = Some n"

section \<open>Selection of the clips of a recap\<close>

text \<open>
  \<^verbatim>\<open>streamClips.filter(clip => clip.startTime.getTime() < cutoffTime)\<close>: the callback runs on
  the elements in order, and an exception of the callback leaves the filter.
\<close>

fun filter_before :: "int \<Rightarrow> clip list \<Rightarrow> string + clip list" where
  "filter_before cutoffTime [] = Inr []"
| "filter_before cutoffTime (c # cs) =
     (case getTime (startTime c) of
        Inl e \<Rightarrow> Inl e
      | Inr t \<Rightarrow>
          (case filter_before cutoffTime cs of
             Inl e \<Rightarrow> Inl e
           | Inr r \<Rightarrow> Inr (if js_less t cutoffTime then c # r else r)))"

text \<open>
  The comparator \<^verbatim>\<open>(a, b) => b.startTime - a.startTime\<close>; a NaN result counts as \<open>0\<close>
  in \<^verbatim>\<open>Array.prototype.sort\<close>.
\<close>

definition compare_desc :: "clip \<Rightarrow> clip \<Rightarrow> int" where
  "compare_desc a b =
     (case (valueOf (startTime b), valueOf (startTime a)) of
        (Some x, Some y) \<Rightarrow> x - y
      | _ \<Rightarrow> 0)"

text \<open>
  \<^verbatim>\<open>Array.prototype.sort\<close> is a stable sort by the comparator: \<open>a\<close> stays before \<open>b\<close> when
  the comparator is not positive on \<open>(a, b)\<close>.
\<close>

fun insert_by :: "('a \<Rightarrow> 'a \<Rightarrow> int) \<Rightarrow> 'a \<Rightarrow> 'a list \<Rightarrow> 'a list" where
  "insert_by cmp x [] = [x]"
| "insert_by cmp x (y # ys) = (if cmp x y \<le> 0 then x # y # ys else y # insert_by cmp x ys)"

definition array_sort :: "('a \<Rightarrow> 'a \<Rightarrow> int) \<Rightarrow> 'a list \<Rightarrow> 'a list" where
  "array_sort cmp xs = foldr (insert_by cmp) xs []"

text \<open>
  Lines 269 to 275 of \<^verbatim>\<open>generateRecapVideo\<close>: the cutoff, the filter, the sort and
  \<^verbatim>\<open>slice(0, 5)\<close>.
\<close>

definition relevantClips :: "clip list \<Rightarrow> int \<Rightarrow> int \<Rightarrow> string + clip list" where
  "relevantClips streamClips minutesLate now =
     (let cutoffTime = now - minutesLate * 60000 in
      case filter_before cutoffTime streamClips of
        Inl e \<Rightarrow> Inl e
      | Inr r \<Rightarrow> Inr (take 5 (array_sort compare_desc r)))"

section \<open>The time budget\<close>

text \<open>
  \<^verbatim>\<open>Math.floor(60000 / relevantClips.length)\<close> milliseconds, then
  \<^verbatim>\<open>Math.floor(totalDurationPerClip / 1000)\<close> seconds. The division is the one of real
  numbers; the count is positive where the code computes it.
\<close>

definition totalDurationPerClip :: "nat \<Rightarrow> int" where
  "totalDurationPerClip n = \<lfloor>60000 / real n\<rfloor>"

definition durationPerClip :: "nat \<Rightarrow> int" where
  "durationPerClip n = \<lfloor>real_of_int (totalDurationPerClip n) / 1000\<rfloor>"

section \<open>The state of the server\<close>

text \<open>
  The module holds the maps \<^verbatim>\<open>clips\<close> and \<^verbatim>\<open>generatingVideos\<close> (whose values are all
  \<^verbatim>\<open>true\<close>, so it is a set of keys) and works on three directories. A directory is keyed
  by file name (the names are taken to hold no path separator). \<^verbatim>\<open>VIDEOS_DIR\<close> is an
  association list in the order \<^verbatim>\<open>readdirSync\<close> lists it, each file with what
  \<^verbatim>\<open>statSync\<close> reads; \<^verbatim>\<open>CLIPS_DIR\<close> maps a file to the length in seconds of the media it
  holds; \<^verbatim>\<open>TEMP_DIR\<close> maps a file to its text. \<^verbatim>\<open>mtimeMs\<close> is taken in whole
  milliseconds.
\<close>

record vfile =
  mtimeMs :: int
  size_bytes :: nat

text \<open>
  \<^verbatim>\<open>generateRecapVideo\<close> is an async function. It runs without interruption up to an
  \<^verbatim>\<open>await\<close> or up to the promise that waits for the \<^verbatim>\<open>close\<close> event of ffmpeg; what is
  left of a suspended call is a task: its arguments, the instant in its key, the number of
  selected clips, and where it waits.
\<close>

datatype phase =
    AwaitSynth clip "clip list" string
  | AwaitEncode

record task =
  t_channelId :: string
  t_minutesLate :: int
  t_now :: int
  t_count :: nat
  t_phase :: phase

record state =
  clips :: "string \<rightharpoonup> clip list"
  generatingVideos :: "string set"
  videosDir :: "(string \<times> vfile) list"
  clipsDir :: "string \<rightharpoonup> int"
  tempDir :: "string \<rightharpoonup> string"
  tasks :: "task list"

definition boot :: "(string \<times> vfile) list \<Rightarrow> (string \<rightharpoonup> int) \<Rightarrow> (string \<rightharpoonup> string) \<Rightarrow> state" where
  "boot vdir cdir tdir =
     \<lparr>clips = Map.empty, generatingVideos = {}, videosDir = vdir, clipsDir = cdir,
      tempDir = tdir, tasks = []\<rparr>"

definition existsSync :: "(string \<times> 'a) list \<Rightarrow> string \<Rightarrow> bool" where
  "existsSync dir file = (map_of dir file \<noteq> None)"

definition dir_unlink :: "string \<Rightarrow> (string \<times> 'a) list \<Rightarrow> (string \<times> 'a) list" where
  "dir_unlink file dir = filter (\<lambda>p. fst p \<noteq> file) dir"

definition dir_write :: "string \<Rightarrow> 'a \<Rightarrow> (string \<times> 'a) list \<Rightarrow> (string \<times> 'a) list" where
  "dir_write file f dir =
     (if existsSync dir file then map (\<lambda>p. if fst p = file then (file, f) else p) dir
      else dir @ [(file, f)])"

text \<open>\<^verbatim>\<open>createClip\<close>: the clip is pushed on the list of its channel.\<close>

definition createClip :: "state \<Rightarrow> string \<Rightarrow> clip \<Rightarrow> state" where
  "createClip s channelId c =
     s\<lparr>clips := (clips s)(channelId \<mapsto> (case clips s channelId of None \<Rightarrow> [] | Some cs \<Rightarrow> cs) @ [c])\<rparr>"

section \<open>Names\<close>

definition mk_videoId :: "string \<Rightarrow> int \<Rightarrow> int \<Rightarrow> string" where
  "mk_videoId channelId minutesLate now =
     channelId @ ''_'' @ show_int minutesLate @ ''min_'' @ show_int now"

definition videoFile :: "string \<Rightarrow> string" where
  "videoFile videoId = videoId @ ''.mp4''"

definition video_url :: "string \<Rightarrow> string" where
  "video_url videoId = ''/videos/'' @ videoId @ ''.mp4''"

definition listFileName :: "string \<Rightarrow> string" where
  "listFileName videoId = videoId @ ''_list.txt''"

definition clipFileName :: "clip \<Rightarrow> string" where
  "clipFileName c = ''clip_'' @ clip_id c @ ''.mp4''"

text \<open>The key that the \<^verbatim>\<open>catch\<close> block deletes.\<close>

definition catch_key :: "string \<Rightarrow> int \<Rightarrow> string" where
  "catch_key channelId minutesLate = channelId @ ''_'' @ show_int minutesLate @ ''min''"

definition task_videoId :: "task \<Rightarrow> string" where
  "task_videoId t = mk_videoId (t_channelId t) (t_minutesLate t) (t_now t)"

section \<open>Results\<close>

text \<open>
  The objects that \<^verbatim>\<open>generateRecapVideo\<close> resolves to: \<^verbatim>\<open>{id, url, cached}\<close>,
  \<^verbatim>\<open>{id, url, size, duration}\<close> and \<^verbatim>\<open>{error}\<close>.
\<close>

datatype result =
    RecapRef string string bool
  | RecapNew string string nat int
  | RecapError string

text \<open>
  What a call has reached when it stops running: a result, the \<^verbatim>\<open>setInterval\<close> poll of an
  in-flight key, or a suspension that left a task behind.
\<close>

datatype reply =
    Resolved result
  | Polling string
  | Suspended

section \<open>Generation\<close>

text \<open>Two lines of the ffmpeg list file; paths are written relative to the module.\<close>

definition manifest_entry :: "string \<Rightarrow> int \<Rightarrow> string" where
  "manifest_entry clipFile d =
     ''file '' @ [CHR 0x27] @ ''clips/'' @ clipFile @ [CHR 0x27, CHR 0x0A] @
     ''duration '' @ show_int d @ [CHR 0x0A]"

text \<open>
  The \<^verbatim>\<open>for\<close> loop over the selected clips, from some clip on, up to its next \<^verbatim>\<open>await\<close>:
  \<open>Inl\<close> is the suspension in \<^verbatim>\<open>createTestClipVideo\<close> for a clip without a file (the
  clip, the clips after it, the list written so far), \<open>Inr\<close> the finished list.
\<close>

fun clip_loop :: "(string \<rightharpoonup> int) \<Rightarrow> int \<Rightarrow> clip list \<Rightarrow> string \<Rightarrow> (clip \<times> clip list \<times> string) + string" where
  "clip_loop cdir d [] listContent = Inr listContent"
| "clip_loop cdir d (c # cs) listContent =
     (if cdir (clipFileName c) = None then Inl (c, cs, listContent)
      else clip_loop cdir d cs (listContent @ manifest_entry (clipFileName c) d))"

text \<open>
  The \<^verbatim>\<open>catch\<close> block: it deletes \<^verbatim>\<open>`${channelId}_${minutesLate}min`\<close> from
  \<^verbatim>\<open>generatingVideos\<close> and returns the message.
\<close>

definition catch_block :: "state \<Rightarrow> string \<Rightarrow> int \<Rightarrow> string \<Rightarrow> state \<times> reply" where
  "catch_block s channelId minutesLate msg =
     (s\<lparr>generatingVideos := generatingVideos s - {catch_key channelId minutesLate}\<rparr>,
      Resolved (RecapError msg))"

text \<open>
  The loop and what follows it, up to the next suspension. \<open>wr\<close> is what
  \<^verbatim>\<open>fs.writeFileSync(listFile, listContent)\<close> does when it is reached: \<open>None\<close> when it
  writes, the message of its exception otherwise. After the write ffmpeg is spawned and
  the call waits for its \<^verbatim>\<open>close\<close> event.
\<close>

definition run_loop :: "state \<Rightarrow> task \<Rightarrow> clip list \<Rightarrow> string \<Rightarrow> string option \<Rightarrow> state \<times> reply" where
  "run_loop s t cs listContent wr =
     (case clip_loop (clipsDir s) (durationPerClip (t_count t)) cs listContent of
        Inl (c, rest, content) \<Rightarrow>
          (s\<lparr>tasks := tasks s @ [t\<lparr>t_phase := AwaitSynth c rest content\<rparr>]\<rparr>, Suspended)
      | Inr content \<Rightarrow>
          (case wr of
             Some msg \<Rightarrow> catch_block s (t_channelId t) (t_minutesLate t) msg
           | None \<Rightarrow>
               (s\<lparr>tempDir := (tempDir s)(listFileName (task_videoId t) \<mapsto> content),
                  tasks := tasks s @ [t\<lparr>t_phase := AwaitEncode\<rparr>]\<rparr>, Suspended)))"

text \<open>
  \<^verbatim>\<open>generateRecapVideo(channelId, minutesLate)\<close> from its entry to its first suspension.
  \<open>now0\<close> is \<^verbatim>\<open>Date.now()\<close> of line 229, \<open>now1\<close> the one of line 269. \<open>minutesLate\<close> is
  an integer, as \<^verbatim>\<open>parseInt\<close> gives it for a numeric query string (its NaN is outside the
  model). Nothing suspends the call between its entry and line 259: the two checks and the
  mark are in this one function.
\<close>

definition generateRecapVideo :: "state \<Rightarrow> string \<Rightarrow> int \<Rightarrow> int \<Rightarrow> int \<Rightarrow> string option \<Rightarrow> state \<times> reply" where
  "generateRecapVideo s channelId minutesLate now0 now1 wr =
     (let videoId = mk_videoId channelId minutesLate now0 in
      if existsSync (videosDir s) (videoFile videoId) then
        (s, Resolved (RecapRef videoId (video_url videoId) True))
      else if videoId \<in> generatingVideos s then (s, Polling videoId)
      else
        let s1 = s\<lparr>generatingVideos := insert videoId (generatingVideos s)\<rparr>;
            streamClips = (case clips s1 channelId of None \<Rightarrow> [] | Some cs \<Rightarrow> cs)
        in if length streamClips = 0 then
             (s1\<lparr>generatingVideos := generatingVideos s1 - {videoId}\<rparr>,
              Resolved (RecapError ''No clips available''))
           else
             (case relevantClips streamClips minutesLate now1 of
                Inl msg \<Rightarrow> catch_block s1 channelId minutesLate msg
              | Inr rel \<Rightarrow>
                  if length rel = 0 then
                    (s1\<lparr>generatingVideos := generatingVideos s1 - {videoId}\<rparr>,
                     Resolved (RecapError ''No relevant clips''))
                  else
                    run_loop s1
                      \<lparr>t_channelId = channelId, t_minutesLate = minutesLate, t_now = now0,
                       t_count = length rel, t_phase = AwaitEncode\<rparr>
                      rel [] wr))"

text \<open>
  \<^verbatim>\<open>createTestClipVideo(outputPath, durationSeconds)\<close> spawns an ffmpeg that writes black
  video and a tone of \<open>durationSeconds\<close> seconds to \<open>outputPath\<close>, over a file that is
  already there (\<^verbatim>\<open>-y\<close>), and resolves when that process closes, whatever its exit
  code. This is what the process does to \<^verbatim>\<open>CLIPS_DIR\<close> when it writes.
\<close>

definition createTestClipVideo :: "string \<Rightarrow> int \<Rightarrow> (string \<rightharpoonup> int) \<Rightarrow> (string \<rightharpoonup> int)" where
  "createTestClipVideo outputPath durationSeconds cdir = cdir(outputPath \<mapsto> durationSeconds)"

text \<open>
  The call resumes when \<^verbatim>\<open>createTestClipVideo\<close> resolves, on the \<^verbatim>\<open>close\<close> event of its
  ffmpeg: the two lines of the clip are appended and the loop goes on with the next clip.
\<close>

definition resume_after_synth :: "state \<Rightarrow> task \<Rightarrow> clip \<Rightarrow> clip list \<Rightarrow> string \<Rightarrow> string option \<Rightarrow> state \<times> reply" where
  "resume_after_synth s t c rest listContent wr =
     run_loop s t rest
       (listContent @ manifest_entry (clipFileName c) (durationPerClip (t_count t))) wr"

text \<open>
  The handler of the \<^verbatim>\<open>close\<close> event of the concat ffmpeg, lines 324 to 344. \<open>unlink_ok\<close>
  tells whether \<^verbatim>\<open>fs.unlinkSync(listFile)\<close> removes the file; its exception is swallowed.
  With exit code 0 the handler reads the size of the video: when the file is not there,
  \<^verbatim>\<open>statSync\<close> throws inside the event handler and the promise is never resolved
  (\<open>None\<close>).
\<close>

definition ffmpeg_on_close :: "state \<Rightarrow> task \<Rightarrow> int \<Rightarrow> bool \<Rightarrow> state \<times> result option" where
  "ffmpeg_on_close s t code unlink_ok =
     (let videoId = task_videoId t;
          s1 = s\<lparr>generatingVideos := generatingVideos s - {videoId}\<rparr>;
          s2 = (if unlink_ok then s1\<lparr>tempDir := (tempDir s1)(listFileName videoId := None)\<rparr> else s1)
      in if code = 0 then
           (case map_of (videosDir s2) (videoFile videoId) of
              None \<Rightarrow> (s2, None)
            | Some f \<Rightarrow>
                (s2, Some (RecapNew videoId (video_url videoId) (size_bytes f)
                             (durationPerClip (t_count t) * int (t_count t)))))
         else (s2, Some (RecapError ''Failed to generate video'')))"

section \<open>Waiting for a generation in flight\<close>

text \<open>
  One run of the \<^verbatim>\<open>setInterval\<close> callback of lines 246 to 255, on the state it finds, and
  the poll over the states found at the successive ticks: \<open>None\<close> is a promise that is
  still pending after all of them.
\<close>

definition poll :: "state \<Rightarrow> string \<Rightarrow> result option" where
  "poll s videoId =
     (if videoId \<notin> generatingVideos s \<and> existsSync (videosDir s) (videoFile videoId)
      then Some (RecapRef videoId (video_url videoId) False) else None)"

fun waitFor :: "state list \<Rightarrow> string \<Rightarrow> result option" where
  "waitFor [] videoId = None"
| "waitFor (s # ss) videoId =
     (case poll s videoId of Some r \<Rightarrow> Some r | None \<Rightarrow> waitFor ss videoId)"

section \<open>The hourly cleanup\<close>

definition age24h :: int where
  "age24h = 24 * 60 * 60 * 1000"

text \<open>
  The \<^verbatim>\<open>forEach\<close> of lines 411 to 421 over the listing \<^verbatim>\<open>readdirSync\<close> gave. \<open>failing\<close>
  are the files that \<^verbatim>\<open>unlinkSync\<close> cannot remove. An exception of \<^verbatim>\<open>statSync\<close> or of
  \<^verbatim>\<open>unlinkSync\<close> leaves the \<^verbatim>\<open>forEach\<close>: the \<^verbatim>\<open>try\<close> is around the whole of it.
\<close>

fun sweep_files :: "string list \<Rightarrow> int \<Rightarrow> string list \<Rightarrow> (string \<times> vfile) list \<Rightarrow> (string \<times> vfile) list" where
  "sweep_files failing now [] dir = dir"
| "sweep_files failing now (file # files) dir =
     (case map_of dir file of
        None \<Rightarrow> dir
      | Some st \<Rightarrow>
          if now - mtimeMs st > age24h then
            (if file \<in> set failing then dir
             else sweep_files failing now files (dir_unlink file dir))
          else sweep_files failing now files dir)"

definition cleanup :: "state \<Rightarrow> int \<Rightarrow> string list \<Rightarrow> state" where
  "cleanup s now failing =
     s\<lparr>videosDir := sweep_files failing now (map fst (videosDir s)) (videosDir s)\<rparr>"

section \<open>The event loop\<close>

text \<open>
  What can happen to the server, one event at a time: a clip is stored, a recap is
  requested, the ffmpeg of a placeholder writes its file or closes, the concat ffmpeg
  writes its output or closes with an exit code, the cleanup timer fires. A process is
  named by the key of the generation that spawned it; an event of a process that is not
  running changes nothing. Each event is handled without interruption, as the event loop
  of the runtime runs a callback to its end before it takes the next. ffmpeg is taken to
  be installed, so that \<^verbatim>\<open>spawn\<close> starts a process.
\<close>

datatype event =
    CreateClip string clip
  | Request string int int int "string option"
  | SynthWrites string
  | SynthClose string "string option"
  | EncoderWrites string vfile
  | EncodeClose string int bool
  | Cleanup int "string list"

definition find_task :: "string \<Rightarrow> task list \<Rightarrow> task option" where
  "find_task videoId ts = find (\<lambda>t. task_videoId t = videoId) ts"

definition drop_task :: "string \<Rightarrow> task list \<Rightarrow> task list" where
  "drop_task videoId ts = filter (\<lambda>t. task_videoId t \<noteq> videoId) ts"

fun step :: "state \<Rightarrow> event \<Rightarrow> state" where
  "step s (CreateClip channelId c) = createClip s channelId c"
| "step s (Request channelId minutesLate now0 now1 wr) =
     fst (generateRecapVideo s channelId minutesLate now0 now1 wr)"
| "step s (SynthWrites videoId) =
     (case find_task videoId (tasks s) of
        None \<Rightarrow> s
      | Some t \<Rightarrow>
          (case t_phase t of
             AwaitEncode \<Rightarrow> s
           | AwaitSynth c rest content \<Rightarrow>
               s\<lparr>clipsDir :=
                    createTestClipVideo (clipFileName c) (durationPerClip (t_count t)) (clipsDir s)\<rparr>))"
| "step s (SynthClose videoId wr) =
     (case find_task videoId (tasks s) of
        None \<Rightarrow> s
      | Some t \<Rightarrow>
          (case t_phase t of
             AwaitEncode \<Rightarrow> s
           | AwaitSynth c rest content \<Rightarrow>
               fst (resume_after_synth (s\<lparr>tasks := drop_task videoId (tasks s)\<rparr>) t c rest content wr)))"
| "step s (EncoderWrites videoId f) =
     (case find_task videoId (tasks s) of
        None \<Rightarrow> s
      | Some t \<Rightarrow>
          (case t_phase t of
             AwaitEncode \<Rightarrow> s\<lparr>videosDir := dir_write (videoFile videoId) f (videosDir s)\<rparr>
           | AwaitSynth c rest content \<Rightarrow> s))"
| "step s (EncodeClose videoId code unlink_ok) =
     (case find_task videoId (tasks s) of
        None \<Rightarrow> s
      | Some t \<Rightarrow>
          (case t_phase t of
             AwaitEncode \<Rightarrow>
               fst (ffmpeg_on_close (s\<lparr>tasks := drop_task videoId (tasks s)\<rparr>) t code unlink_ok)
           | AwaitSynth c rest content \<Rightarrow> s))"
| "step s (Cleanup now failing) = cleanup s now failing"

definition run :: "state \<Rightarrow> event list \<Rightarrow> state" where
  "run s evs = foldl step s evs"

text \<open>The concat encoders and the placeholder encoders that are running.\<close>

definition encoders :: "state \<Rightarrow> string list" where
  "encoders s = map task_videoId (filter (\<lambda>t. t_phase t = AwaitEncode) (tasks s))"

fun synth_target :: "task \<Rightarrow> string list" where
  "synth_target t =
     (case t_phase t of AwaitSynth c rest content \<Rightarrow> [clipFileName c] | AwaitEncode \<Rightarrow> [])"

definition synths :: "state \<Rightarrow> string list" where
  "synths s = concat (map synth_target (tasks s))"

section \<open>Notions used in the statements\<close>

text \<open>
  A placeholder file is settled when it exists, holding media of \<open>d0\<close> seconds, and no
  placeholder encoder is writing it.
\<close>

definition settled :: "string \<Rightarrow> int \<Rightarrow> state \<Rightarrow> bool" where
  "settled f d0 s \<longleftrightarrow> clipsDir s f = Some d0 \<and> f \<notin> set (synths s)"

text \<open>
  Of the suspended generations no two have one key, each has its key in
  \<^verbatim>\<open>generatingVideos\<close>, and each has selected between one and five clips.
\<close>

definition wf_tasks :: "state \<Rightarrow> bool" where
  "wf_tasks s \<longleftrightarrow>
     distinct (map task_videoId (tasks s)) \<and>
     (\<forall>t \<in> set (tasks s). task_videoId t \<in> generatingVideos s \<and> 1 \<le> t_count t \<and> t_count t \<le> 5)"

text \<open>
  The start time of a clip as a number, whether \<^verbatim>\<open>startTime\<close> is a Date object, and
  whether the clip starts before a cutoff.
\<close>

definition clip_time :: "clip \<Rightarrow> int" where
  "clip_time c = (case valueOf (startTime c) of Some t \<Rightarrow> t | None \<Rightarrow> 0)"

definition is_date :: "clip \<Rightarrow> bool" where
  "is_date c = (case startTime c of Num n \<Rightarrow> False | _ \<Rightarrow> True)"

definition before :: "int \<Rightarrow> clip \<Rightarrow> bool" where
  "before cutoffTime c = js_less (valueOf (startTime c)) cutoffTime"

text \<open>A file is expired at \<open>now\<close> when \<^verbatim>\<open>ageMs > age24h\<close> holds for it.\<close>

definition expired :: "int \<Rightarrow> vfile \<Rightarrow> bool" where
  "expired now st \<longleftrightarrow> now - mtimeMs st > age24h"

section \<open>Sample data\<close>

text \<open>
  A channel with three clips stored by the clip route (the scenario of the specification,
  with \<open>now = 1000000\<close>), a clip as the category-change webhook stores it, and the events
  of one complete generation for \<^verbatim>\<open>minutesLate = 0\<close> requested at \<open>1000000\<close>.
\<close>

definition sample_clip :: "string \<Rightarrow> js_time \<Rightarrow> js_time \<Rightarrow> clip" where
  "sample_clip i t e =
     \<lparr>clip_id = i, category = ''Stream'', title = ''Segment'', startTime = t, endTime = e,
      processed = False\<rparr>"

definition clip_a :: clip where
  "clip_a = sample_clip ''a'' (DateObj 950000) (DateObj 955000)"

definition clip_b :: clip where
  "clip_b = sample_clip ''b'' (DateObj 960000) (DateObj 965000)"

definition clip_c :: clip where
  "clip_c = sample_clip ''c'' (DateObj 980000) (DateObj 985000)"

definition clip_w :: clip where
  "clip_w = sample_clip ''w'' (Num 990000) (Num 995000)"

definition three_clips :: "event list" where
  "three_clips = [CreateClip ''c1'' clip_a, CreateClip ''c1'' clip_b, CreateClip ''c1'' clip_c]"

definition first_request :: "event list" where
  "first_request = three_clips @ [Request ''c1'' 0 1000000 1000000 None]"

definition until_encode :: "event list" where
  "until_encode = first_request @
     [SynthWrites ''c1_0min_1000000'', SynthClose ''c1_0min_1000000'' None,
      SynthWrites ''c1_0min_1000000'', SynthClose ''c1_0min_1000000'' None,
      SynthWrites ''c1_0min_1000000'', SynthClose ''c1_0min_1000000'' None]"

definition encode_ok :: "event list" where
  "encode_ok = until_encode @
     [EncoderWrites ''c1_0min_1000000'' \<lparr>mtimeMs = 1004000, size_bytes = 4096\<rparr>,
      EncodeClose ''c1_0min_1000000'' 0 True]"

definition encode_failed :: "event list" where
  "encode_failed = until_encode @ [EncodeClose ''c1_0min_1000000'' 1 True]"

text \<open>
  A second request for the same channel and \<^verbatim>\<open>minutesLate\<close> one millisecond after the
  first, while the first encoder runs, and both encoders writing their outputs; and a first
  encoder that writes part of its output and then closes with exit code 1.
\<close>

definition second_request :: "event list" where
  "second_request = until_encode @ [Request ''c1'' 0 1000001 1000001 None]"

definition both_written :: "event list" where
  "both_written = second_request @
     [EncoderWrites ''c1_0min_1000000'' \<lparr>mtimeMs = 1004000, size_bytes = 4096\<rparr>,
      EncoderWrites ''c1_0min_1000001'' \<lparr>mtimeMs = 1004001, size_bytes = 4096\<rparr>]"

definition partial_output :: "event list" where
  "partial_output = until_encode @
     [EncoderWrites ''c1_0min_1000000'' \<lparr>mtimeMs = 1003000, size_bytes = 512\<rparr>,
      EncodeClose ''c1_0min_1000000'' 1 True]"

definition fresh :: state where
  "fresh = boot [] Map.empty Map.empty"

section \<open>Keys\<close>

lemma digit_char_not_n: "d < 10 \<Longrightarrow> digit_char d \<noteq> CHR ''n''"
proof -
  assume "d < 10"
  then have "d \<in> {0,1,2,3,4,5,6,7,8,9}" by auto
  then show ?thesis by (auto simp: digit_char_def)
qed

lemma show_nat_last: "show_nat n \<noteq> [] \<and> last (show_nat n) = digit_char (n mod 10)"
  by (subst (1 2) show_nat.simps) simp

lemma show_int_last: "show_int i \<noteq> [] \<and> last (show_int i) \<noteq> CHR ''n''"
  using show_nat_last digit_char_not_n by (simp add: show_int_def)

lemma catch_key_not_videoId: "catch_key c m \<noteq> mk_videoId c' m' n'"
proof
  assume "catch_key c m = mk_videoId c' m' n'"
  then have "last (catch_key c m) = last (mk_videoId c' m' n')" by simp
  moreover have "last (catch_key c m) = CHR ''n''" by (simp add: catch_key_def)
  moreover have "last (mk_videoId c' m' n') = last (show_int n')"
    using show_int_last [of n'] by (simp add: mk_videoId_def)
  ultimately show False using show_int_last [of n'] by simp
qed

text \<open>
  The decimal rendering is injective, so two requests for one channel and one
  \<^verbatim>\<open>minutesLate\<close> at different instants have different keys.
\<close>

lemma digit_char_inj: "a < 10 \<Longrightarrow> b < 10 \<Longrightarrow> digit_char a = digit_char b \<Longrightarrow> a = b"
proof -
  assume "a < 10" "b < 10" and eq: "digit_char a = digit_char b"
  then have "a \<in> {0,1,2,3,4,5,6,7,8,9}" "b \<in> {0,1,2,3,4,5,6,7,8,9}" by auto
  then show ?thesis using eq by (auto simp: digit_char_def)
qed

lemma digit_char_not_minus: "d < 10 \<Longrightarrow> digit_char d \<noteq> CHR ''-''"
proof -
  assume "d < 10"
  then have "d \<in> {0,1,2,3,4,5,6,7,8,9}" by auto
  then show ?thesis by (auto simp: digit_char_def)
qed

lemma show_nat_snoc: "10 \<le> n \<Longrightarrow> show_nat n = show_nat (n div 10) @ [digit_char (n mod 10)]"
  by (subst show_nat.simps) simp

lemma show_nat_small: "n < 10 \<Longrightarrow> show_nat n = [digit_char n]"
  by (subst show_nat.simps) simp

lemma show_nat_inj: "show_nat m = show_nat n \<Longrightarrow> m = n"
proof (induction m arbitrary: n rule: less_induct)
  case (less m)
  show ?case
  proof (cases "m < 10")
    case True
    show ?thesis
    proof (cases "n < 10")
      case n: True
      then show ?thesis using True less.prems digit_char_inj by (simp add: show_nat_small)
    next
      case False
      then have "show_nat n = show_nat (n div 10) @ [digit_char (n mod 10)]"
        by (simp add: show_nat_snoc)
      then show ?thesis using True less.prems show_nat_last [of "n div 10"]
        by (simp add: show_nat_small)
    qed
  next
    case False
    then have m: "show_nat m = show_nat (m div 10) @ [digit_char (m mod 10)]"
      by (simp add: show_nat_snoc)
    show ?thesis
    proof (cases "n < 10")
      case True
      then show ?thesis using m less.prems show_nat_last [of "m div 10"]
        by (simp add: show_nat_small)
    next
      case n: False
      then have "show_nat n = show_nat (n div 10) @ [digit_char (n mod 10)]"
        by (simp add: show_nat_snoc)
      then have eq: "show_nat (m div 10) = show_nat (n div 10)"
        "digit_char (m mod 10) = digit_char (n mod 10)"
        using m less.prems by simp_all
      have "m div 10 < m" using False by simp
      then have "m div 10 = n div 10" using less.IH eq(1) by blast
      moreover have "m mod 10 = n mod 10" using eq(2) digit_char_inj by simp
      ultimately show ?thesis by (metis div_mult_mod_eq)
    qed
  qed
qed

lemma show_nat_hd: "hd (show_nat n) \<noteq> CHR ''-''"
proof (induction n rule: show_nat.induct)
  case (1 n)
  show ?case
  proof (cases "n < 10")
    case True
    then show ?thesis using digit_char_not_minus by (simp add: show_nat_small)
  next
    case False
    then show ?thesis using 1 show_nat_last [of "n div 10"]
      by (simp add: show_nat_snoc)
  qed
qed

lemma show_int_inj: "show_int i = show_int j \<Longrightarrow> i = j"
proof -
  assume eq: "show_int i = show_int j"
  have mixed: False if "show_nat a = CHR ''-'' # xs" for a xs
    using show_nat_hd [of a] that by simp
  show ?thesis
  proof (cases "i < 0")
    case True
    show ?thesis
    proof (cases "j < 0")
      case j: True
      then have "nat (- i) = nat (- j)" using True eq show_nat_inj by (simp add: show_int_def)
      then show ?thesis using True j by simp
    next
      case False
      then show ?thesis using True eq [symmetric] mixed [of "nat j"] by (simp add: show_int_def)
    qed
  next
    case False
    show ?thesis
    proof (cases "j < 0")
      case True
      then show ?thesis using False eq mixed [of "nat i"] by (simp add: show_int_def)
    next
      case j: False
      then have "nat i = nat j" using False eq show_nat_inj by (simp add: show_int_def)
      then show ?thesis using False j by simp
    qed
  qed
qed

lemma videoId_instant: "mk_videoId c m now = mk_videoId c m now' \<Longrightarrow> now = now'"
  by (simp add: mk_videoId_def show_int_inj)

text \<open>
  When the only video in the directory is the one of a generation at \<open>now\<close>, the file
  check of the same request at another instant fails.
\<close>

lemma cache_check_misses:
  assumes "now' \<noteq> now" and "map fst (videosDir s) = [videoFile (mk_videoId c m now)]"
  shows "\<not> existsSync (videosDir s) (videoFile (mk_videoId c m now'))"
proof -
  have "mk_videoId c m now' \<noteq> mk_videoId c m now"
    using assms(1) videoId_instant [of c m now' now] by blast
  then have "videoFile (mk_videoId c m now') \<noteq> videoFile (mk_videoId c m now)"
    by (simp add: videoFile_def)
  moreover have "fst ` set (videosDir s) = {videoFile (mk_videoId c m now)}"
    using assms(2) by (metis empty_set list.simps(15) set_map)
  ultimately have "videoFile (mk_videoId c m now') \<notin> fst ` set (videosDir s)"
    by simp
  then show ?thesis by (simp add: existsSync_def map_of_eq_None_iff)
qed

section \<open>The time budget, in integers\<close>

lemma totalDurationPerClip_div: "totalDurationPerClip n = 60000 div int n"
  unfolding totalDurationPerClip_def
  by (metis floor_divide_of_int_eq of_int_numeral of_int_of_nat_eq)

lemma durationPerClip_div: "durationPerClip n = (60000 div int n) div 1000"
  unfolding durationPerClip_def totalDurationPerClip_div
  by (metis floor_divide_of_int_eq of_int_numeral)


section \<open>The selection on Date objects\<close>

lemma filter_before_throws:
  "\<exists>c \<in> set cs. \<not> is_date c \<Longrightarrow> filter_before cutoff cs = Inl ''clip.startTime.getTime is not a function''"
  by (induction cs) (auto simp: is_date_def split: js_time.splits sum.splits)

lemma filter_before_dates:
  "\<forall>c \<in> set cs. is_date c \<Longrightarrow> filter_before cutoff cs = Inr (filter (before cutoff) cs)"
  by (induction cs) (auto simp: is_date_def before_def split: js_time.splits)

lemma before_valid: "before cutoff c \<Longrightarrow> valueOf (startTime c) = Some (clip_time c)"
  by (cases "startTime c") (auto simp: before_def clip_time_def)

lemma insert_by_insort:
  "valueOf (startTime x) \<noteq> None \<Longrightarrow> \<forall>y \<in> set ys. valueOf (startTime y) \<noteq> None \<Longrightarrow>
   insert_by compare_desc x ys = insort_key (\<lambda>c. - clip_time c) x ys"
  by (induction ys) (auto simp: compare_desc_def clip_time_def)

lemma array_sort_sort_key:
  "\<forall>y \<in> set xs. valueOf (startTime y) \<noteq> None \<Longrightarrow>
   array_sort compare_desc xs = sort_key (\<lambda>c. - clip_time c) xs"
proof (induction xs)
  case Nil
  then show ?case by (simp add: array_sort_def)
next
  case (Cons x xs)
  then have ih: "array_sort compare_desc xs = sort_key (\<lambda>c. - clip_time c) xs" by simp
  have "\<forall>y \<in> set (sort_key (\<lambda>c. - clip_time c) xs). valueOf (startTime y) \<noteq> None"
    using Cons.prems by simp
  then show ?case
    using Cons.prems ih insert_by_insort [of x "sort_key (\<lambda>c. - clip_time c) xs"]
    by (simp add: array_sort_def)
qed

lemma relevantClips_dates:
  assumes "\<forall>c \<in> set cs. is_date c"
  shows "relevantClips cs m now =
         Inr (take 5 (sort_key (\<lambda>c. - clip_time c) (filter (before (now - m * 60000)) cs)))"
proof -
  have "\<forall>y \<in> set (filter (before (now - m * 60000)) cs). valueOf (startTime y) \<noteq> None"
    using before_valid by auto
  then show ?thesis
    using assms by (simp add: relevantClips_def filter_before_dates array_sort_sort_key)
qed

lemma relevantClips_length: "relevantClips cs m now = Inr rel \<Longrightarrow> length rel \<le> 5"
  by (auto simp: relevantClips_def Let_def split: sum.splits)

text \<open>
  The filter leaves nothing exactly when every clip is a Date object and none of them
  starts before the cutoff.
\<close>

lemma filter_before_empty_iff:
  "filter_before cutoff cs = Inr [] \<longleftrightarrow> (\<forall>c \<in> set cs. is_date c \<and> \<not> before cutoff c)"
proof (cases "\<forall>c \<in> set cs. is_date c")
  case True
  then show ?thesis by (auto simp: filter_before_dates filter_empty_conv)
next
  case False
  then have "\<exists>c \<in> set cs. \<not> is_date c" by simp
  then have "filter_before cutoff cs = Inl ''clip.startTime.getTime is not a function''"
    by (rule filter_before_throws)
  then show ?thesis using False by auto
qed

text \<open>
  On Date objects the selection is in descending order of start time and holds only clips
  that start before the cutoff.
\<close>

lemma relevantClips_sorted:
  assumes "\<forall>c \<in> set cs. is_date c" and "relevantClips cs m now = Inr rel"
  shows "sorted (map (\<lambda>c. - clip_time c) rel) \<and> set rel \<subseteq> {c \<in> set cs. before (now - m * 60000) c}"
proof -
  let ?sel = "sort_key (\<lambda>c. - clip_time c) (filter (before (now - m * 60000)) cs)"
  have rel: "rel = take 5 ?sel"
    using assms relevantClips_dates [of cs m now] by simp
  have "sorted (map (\<lambda>c. - clip_time c) ?sel)" by simp
  then have "sorted (take 5 (map (\<lambda>c. - clip_time c) ?sel))" by (rule sorted_wrt_take)
  then have s: "sorted (map (\<lambda>c. - clip_time c) rel)" by (simp add: rel take_map)
  have "set rel \<subseteq> set ?sel" unfolding rel by (rule set_take_subset)
  then show ?thesis using s by auto
qed

section \<open>The suspended generations of a run\<close>

lemma videoId_not_catch_key: "mk_videoId c' m' n' \<noteq> catch_key c m"
  using catch_key_not_videoId [of c m c' m' n'] by simp

lemma wf_catch_block: "wf_tasks s \<Longrightarrow> wf_tasks (fst (catch_block s c m msg))"
  by (auto simp: wf_tasks_def catch_block_def task_videoId_def videoId_not_catch_key)

lemma wf_run_loop:
  assumes "wf_tasks s" "task_videoId t \<notin> task_videoId ` set (tasks s)"
    "task_videoId t \<in> generatingVideos s" "1 \<le> t_count t" "t_count t \<le> 5"
  shows "wf_tasks (fst (run_loop s t cs content wr))"
proof (cases "clip_loop (clipsDir s) (durationPerClip (t_count t)) cs content")
  case (Inl a)
  then show ?thesis using assms
    by (cases a) (auto simp: run_loop_def wf_tasks_def task_videoId_def)
next
  case (Inr b)
  then show ?thesis using assms wf_catch_block [of s]
    by (cases wr) (auto simp: run_loop_def wf_tasks_def task_videoId_def)
qed

lemma wf_generateRecapVideo:
  assumes "wf_tasks s"
  shows "wf_tasks (fst (generateRecapVideo s c m now0 now1 wr))"
proof -
  let ?vid = "mk_videoId c m now0"
  let ?s1 = "s\<lparr>generatingVideos := insert ?vid (generatingVideos s)\<rparr>"
  have wf1: "wf_tasks ?s1" using assms by (auto simp: wf_tasks_def)
  have same: "wf_tasks (?s1\<lparr>generatingVideos := generatingVideos ?s1 - {?vid}\<rparr>)"
    if "?vid \<notin> generatingVideos s"
    using assms that by (auto simp: wf_tasks_def)
  have loop: "wf_tasks (fst (run_loop ?s1
        \<lparr>t_channelId = c, t_minutesLate = m, t_now = now0, t_count = length rel, t_phase = AwaitEncode\<rparr>
        rel [] wr))"
    if "?vid \<notin> generatingVideos s" "relevantClips cs m now1 = Inr rel" "length rel \<noteq> 0" for rel cs
  proof (rule wf_run_loop [OF wf1])
    show "task_videoId \<lparr>t_channelId = c, t_minutesLate = m, t_now = now0, t_count = length rel, t_phase = AwaitEncode\<rparr>
          \<notin> task_videoId ` set (tasks ?s1)"
      using assms that(1) by (auto simp: wf_tasks_def task_videoId_def)
  qed (use that relevantClips_length [OF that(2)] in \<open>auto simp: task_videoId_def Suc_le_eq\<close>)
  show ?thesis
    using assms wf_catch_block [OF wf1] same loop
    by (auto simp: generateRecapVideo_def Let_def split: sum.splits option.splits)
qed

lemma find_task_Some: "find_task vid ts = Some t \<Longrightarrow> t \<in> set ts \<and> task_videoId t = vid"
  by (auto simp: find_task_def find_Some_iff)

lemma wf_drop_task:
  "wf_tasks s \<Longrightarrow> wf_tasks (s\<lparr>tasks := drop_task vid (tasks s)\<rparr>)"
  by (auto simp: wf_tasks_def drop_task_def distinct_map_filter)

lemma drop_task_ids: "vid \<notin> task_videoId ` set (drop_task vid ts)"
  by (auto simp: drop_task_def)

lemma wf_resume_after_synth:
  assumes "wf_tasks s" "find_task vid (tasks s) = Some t"
  shows "wf_tasks (fst (resume_after_synth (s\<lparr>tasks := drop_task vid (tasks s)\<rparr>) t c rest content wr))"
proof -
  have t: "t \<in> set (tasks s)" "task_videoId t = vid"
    using find_task_Some [OF assms(2)] by auto
  show ?thesis
    unfolding resume_after_synth_def
  proof (rule wf_run_loop [OF wf_drop_task [OF assms(1)]])
    show "task_videoId t \<notin> task_videoId ` set (tasks (s\<lparr>tasks := drop_task vid (tasks s)\<rparr>))"
      using t(2) drop_task_ids [of vid "tasks s"] by simp
  qed (use assms(1) t in \<open>auto simp: wf_tasks_def\<close>)
qed

lemma wf_ffmpeg_on_close:
  assumes "wf_tasks s" "find_task vid (tasks s) = Some t"
  shows "wf_tasks (fst (ffmpeg_on_close (s\<lparr>tasks := drop_task vid (tasks s)\<rparr>) t code u))"
proof -
  have t: "task_videoId t = vid"
    using find_task_Some [OF assms(2)] by auto
  have "wf_tasks (s\<lparr>tasks := drop_task vid (tasks s), generatingVideos := generatingVideos s - {vid}\<rparr>)"
    using assms(1) by (auto simp: wf_tasks_def drop_task_def distinct_map_filter)
  then show ?thesis
    using t by (auto simp: ffmpeg_on_close_def Let_def wf_tasks_def split: option.splits)
qed

lemma wf_step: "wf_tasks s \<Longrightarrow> wf_tasks (step s e)"
proof (cases e)
  case (CreateClip c x)
  assume "wf_tasks s"
  then show ?thesis using CreateClip by (simp add: createClip_def wf_tasks_def)
next
  case (Request c m n0 n1 wr)
  assume "wf_tasks s"
  then show ?thesis using Request wf_generateRecapVideo by simp
next
  case (SynthWrites vid)
  assume "wf_tasks s"
  then show ?thesis using SynthWrites
    by (auto simp: wf_tasks_def split: option.splits phase.splits)
next
  case (SynthClose vid wr)
  assume "wf_tasks s"
  then show ?thesis using SynthClose wf_resume_after_synth
    by (auto split: option.splits phase.splits)
next
  case (EncoderWrites vid f)
  assume "wf_tasks s"
  then show ?thesis using EncoderWrites
    by (auto simp: wf_tasks_def split: option.splits phase.splits)
next
  case (EncodeClose vid code u)
  assume "wf_tasks s"
  then show ?thesis using EncodeClose wf_ffmpeg_on_close
    by (auto split: option.splits phase.splits)
next
  case (Cleanup now failing)
  assume "wf_tasks s"
  then show ?thesis using Cleanup by (simp add: cleanup_def wf_tasks_def)
qed

lemma wf_run: "wf_tasks s \<Longrightarrow> wf_tasks (run s evs)"
  unfolding run_def by (induction evs arbitrary: s) (auto simp: wf_step)

lemma wf_boot: "wf_tasks (boot vdir cdir tdir)"
  by (simp add: wf_tasks_def boot_def)

lemma in_flight_request:
  assumes "mk_videoId c m now0 \<in> generatingVideos s"
  shows "generateRecapVideo s c m now0 now1 wr = (s, Polling (mk_videoId c m now0)) \<or>
         generateRecapVideo s c m now0 now1 wr =
           (s, Resolved (RecapRef (mk_videoId c m now0) (video_url (mk_videoId c m now0)) True))"
  using assms by (simp add: generateRecapVideo_def Let_def)

section \<open>Placeholder files\<close>

lemma synths_iff:
  "f \<in> set (synths s) \<longleftrightarrow>
   (\<exists>t \<in> set (tasks s). \<exists>c rest content. t_phase t = AwaitSynth c rest content \<and> f = clipFileName c)"
proof -
  have "set (synth_target t) = {f. \<exists>c rest content. t_phase t = AwaitSynth c rest content \<and> f = clipFileName c}" for t
    by (cases "t_phase t") auto
  then show ?thesis unfolding synths_def by auto
qed

lemma clip_loop_Inl:
  "clip_loop cdir d cs content = Inl (c, rest, content') \<Longrightarrow> cdir (clipFileName c) = None"
  by (induction cs arbitrary: content) (auto split: if_splits)

lemma clip_loop_present:
  "\<forall>c \<in> set cs. cdir (clipFileName c) \<noteq> None \<Longrightarrow>
   clip_loop cdir d cs content = Inr (content @ concat (map (\<lambda>c. manifest_entry (clipFileName c) d) cs))"
  by (induction cs arbitrary: content) auto


lemma settled_catch_block: "settled f d0 s \<Longrightarrow> settled f d0 (fst (catch_block s c m msg))"
  by (simp add: settled_def catch_block_def synths_iff)

lemma settled_run_loop:
  assumes "settled f d0 s"
  shows "settled f d0 (fst (run_loop s t cs content wr))"
proof (cases "clip_loop (clipsDir s) (durationPerClip (t_count t)) cs content")
  case (Inl a)
  obtain c rest content' where a: "a = (c, rest, content')" by (cases a) auto
  have "clipsDir s (clipFileName c) = None" using Inl a clip_loop_Inl by simp
  then have "clipFileName c \<noteq> f" using assms by (auto simp: settled_def)
  then show ?thesis using Inl a assms
    by (auto simp: run_loop_def settled_def synths_iff)
next
  case (Inr b)
  then show ?thesis using assms settled_catch_block [OF assms]
    by (cases wr) (auto simp: run_loop_def settled_def synths_iff)
qed

lemma settled_drop: "settled f d0 s \<Longrightarrow> settled f d0 (s\<lparr>tasks := drop_task vid (tasks s)\<rparr>)"
  by (auto simp: settled_def synths_iff drop_task_def)

lemma settled_generateRecapVideo:
  assumes "settled f d0 s"
  shows "settled f d0 (fst (generateRecapVideo s c m now0 now1 wr))"
proof -
  have g: "settled f d0 (s\<lparr>generatingVideos := G\<rparr>)" for G
    using assms by (simp add: settled_def synths_iff)
  show ?thesis
    using assms g settled_catch_block [OF g] settled_run_loop [OF g]
    by (auto simp: generateRecapVideo_def Let_def split: sum.splits option.splits)
qed

lemma settled_step: "settled f d0 s \<Longrightarrow> settled f d0 (step s e)"
proof (cases e)
  case (CreateClip c x)
  assume "settled f d0 s"
  then show ?thesis using CreateClip by (simp add: createClip_def settled_def synths_iff)
next
  case (Request c m n0 n1 wr)
  assume "settled f d0 s"
  then show ?thesis using Request settled_generateRecapVideo by simp
next
  case (SynthWrites vid)
  assume a: "settled f d0 s"
  show ?thesis
  proof (cases "find_task vid (tasks s)")
    case None
    then show ?thesis using a SynthWrites by simp
  next
    case (Some t)
    then have t: "t \<in> set (tasks s)" using find_task_Some by auto
    show ?thesis
    proof (cases "t_phase t")
      case AwaitEncode
      then show ?thesis using a SynthWrites Some by simp
    next
      case (AwaitSynth c rest content)
      then have "clipFileName c \<in> set (synths s)" using t by (auto simp: synths_iff)
      then have "clipFileName c \<noteq> f" using a by (auto simp: settled_def)
      then show ?thesis using a SynthWrites Some AwaitSynth
        by (auto simp: settled_def synths_iff createTestClipVideo_def)
    qed
  qed
next
  case (SynthClose vid wr)
  assume "settled f d0 s"
  then show ?thesis using SynthClose settled_run_loop [OF settled_drop]
    by (auto simp: resume_after_synth_def split: option.splits phase.splits)
next
  case (EncoderWrites vid x)
  assume "settled f d0 s"
  then show ?thesis using EncoderWrites
    by (auto simp: settled_def synths_iff split: option.splits phase.splits)
next
  case (EncodeClose vid code u)
  assume "settled f d0 s"
  then show ?thesis using EncodeClose settled_drop [of f d0 s vid]
    by (auto simp: ffmpeg_on_close_def Let_def settled_def synths_iff split: option.splits phase.splits)
next
  case (Cleanup now failing)
  assume "settled f d0 s"
  then show ?thesis using Cleanup by (simp add: cleanup_def settled_def synths_iff)
qed

lemma settled_run: "settled f d0 s \<Longrightarrow> settled f d0 (run s evs)"
  unfolding run_def by (induction evs arbitrary: s) (auto simp: settled_step)

section \<open>The cleanup\<close>

lemma map_of_distinct_mid:
  "distinct (map fst (ys @ (f, st) # xs)) \<Longrightarrow> map_of (ys @ (f, st) # xs) f = Some st"
  by (induction ys) auto

lemma dir_unlink_mid:
  "distinct (map fst (ys @ (f, st) # xs)) \<Longrightarrow> dir_unlink f (ys @ (f, st) # xs) = ys @ xs"
proof -
  assume d: "distinct (map fst (ys @ (f, st) # xs))"
  then have "\<forall>p \<in> set ys \<union> set xs. fst p \<noteq> f" by auto
  then have "filter (\<lambda>p. fst p \<noteq> f) ys = ys" "filter (\<lambda>p. fst p \<noteq> f) xs = xs"
    by (auto simp: filter_id_conv)
  then show ?thesis by (simp add: dir_unlink_def)
qed

lemma sweep_files_no_failure:
  assumes "distinct (map fst (ys @ xs))"
    and "\<forall>p \<in> set xs. expired now (snd p) \<longrightarrow> fst p \<notin> set failing"
  shows "sweep_files failing now (map fst xs) (ys @ xs) =
         ys @ filter (\<lambda>p. \<not> expired now (snd p)) xs"
  using assms
proof (induction xs arbitrary: ys)
  case Nil
  then show ?case by simp
next
  case (Cons p xs)
  obtain f st where p: "p = (f, st)" by (cases p) auto
  have look: "map_of (ys @ (f, st) # xs) f = Some st"
    using Cons.prems(1) p map_of_distinct_mid [of ys f st xs] by simp
  show ?case
  proof (cases "expired now st")
    case True
    then have ok: "f \<notin> set failing" using Cons.prems(2) p by auto
    have "distinct (map fst (ys @ xs))" using Cons.prems(1) by auto
    then have "sweep_files failing now (map fst xs) (ys @ xs) =
               ys @ filter (\<lambda>p. \<not> expired now (snd p)) xs"
      using Cons.IH [of ys] Cons.prems(2) by simp
    then show ?thesis
      using True ok look p dir_unlink_mid [of ys f st xs] Cons.prems(1)
      by (simp add: expired_def)
  next
    case False
    have "distinct (map fst ((ys @ [(f, st)]) @ xs))" using Cons.prems(1) p by simp
    then have "sweep_files failing now (map fst xs) ((ys @ [(f, st)]) @ xs) =
               (ys @ [(f, st)]) @ filter (\<lambda>p. \<not> expired now (snd p)) xs"
      using Cons.IH [of "ys @ [(f, st)]"] Cons.prems(2) by simp
    then show ?thesis
      using False look p by (simp add: expired_def)
  qed
qed

lemma sweep_files_failure:
  assumes "distinct (map fst (ys @ pre @ (g, sg) # post))"
    and "\<forall>p \<in> set pre. expired now (snd p) \<longrightarrow> fst p \<notin> set failing"
    and "expired now sg" "g \<in> set failing"
  shows "sweep_files failing now (map fst (pre @ (g, sg) # post)) (ys @ pre @ (g, sg) # post) =
         ys @ filter (\<lambda>p. \<not> expired now (snd p)) pre @ (g, sg) # post"
  using assms(1,2)
proof (induction pre arbitrary: ys)
  case Nil
  have "map_of (ys @ (g, sg) # post) g = Some sg"
    using Nil.prems(1) map_of_distinct_mid [of ys g sg post] by simp
  then show ?case using assms(3,4) by (simp add: expired_def)
next
  case (Cons p pre)
  obtain f st where p: "p = (f, st)" by (cases p) auto
  have look: "map_of (ys @ (f, st) # pre @ (g, sg) # post) f = Some st"
    using Cons.prems(1) p map_of_distinct_mid [of ys f st "pre @ (g, sg) # post"] by simp
  show ?case
  proof (cases "expired now st")
    case True
    then have ok: "f \<notin> set failing" using Cons.prems(2) p by auto
    have "distinct (map fst (ys @ pre @ (g, sg) # post))" using Cons.prems(1) by auto
    then have ih: "sweep_files failing now (map fst (pre @ (g, sg) # post)) (ys @ pre @ (g, sg) # post) =
               ys @ filter (\<lambda>p. \<not> expired now (snd p)) pre @ (g, sg) # post"
      using Cons.IH [of ys] Cons.prems(2) by simp
    have "dir_unlink f (ys @ (f, st) # pre @ (g, sg) # post) = ys @ pre @ (g, sg) # post"
      using dir_unlink_mid [of ys f st "pre @ (g, sg) # post"] Cons.prems(1) p by simp
    then show ?thesis
      using True ok look p ih by (simp add: expired_def)
  next
    case False
    have "distinct (map fst ((ys @ [(f, st)]) @ pre @ (g, sg) # post))"
      using Cons.prems(1) p by simp
    then have "sweep_files failing now (map fst (pre @ (g, sg) # post)) ((ys @ [(f, st)]) @ pre @ (g, sg) # post) =
               (ys @ [(f, st)]) @ filter (\<lambda>p. \<not> expired now (snd p)) pre @ (g, sg) # post"
      using Cons.IH [of "ys @ [(f, st)]"] Cons.prems(2) by simp
    then show ?thesis
      using False look p by (simp add: expired_def)
  qed
qed

text \<open>
  A directory that holds each name once does so after every event.
\<close>

lemma sweep_files_filter: "\<exists>P. sweep_files failing now files dir = filter P dir"
proof (induction files arbitrary: dir)
  case Nil
  have "sweep_files failing now [] dir = filter (\<lambda>p. True) dir" by simp
  then show ?case by blast
next
  case (Cons name names)
  have same: "\<exists>P. dir = filter P dir"
  proof
    show "dir = filter (\<lambda>p. True) dir" by simp
  qed
  show ?case
  proof (cases "map_of dir name")
    case None
    then show ?thesis using same by simp
  next
    case (Some st)
    show ?thesis
    proof (cases "now - mtimeMs st > age24h \<and> name \<notin> set failing")
      case True
      obtain P where "sweep_files failing now names (dir_unlink name dir) = filter P (dir_unlink name dir)"
        using Cons.IH by blast
      then have "sweep_files failing now (name # names) dir = filter (\<lambda>p. fst p \<noteq> name \<and> P p) dir"
        using Some True by (simp add: dir_unlink_def conj_commute)
      then show ?thesis by blast
    next
      case False
      then show ?thesis using Some same Cons.IH [of dir] by auto
    qed
  qed
qed

lemma distinct_sweep_files:
  "distinct (map fst dir) \<Longrightarrow> distinct (map fst (sweep_files failing now files dir))"
  using sweep_files_filter [of failing now files dir] by (auto simp: distinct_map_filter)

lemma distinct_dir_write:
  assumes "distinct (map fst dir)"
  shows "distinct (map fst (dir_write file f dir))"
proof (cases "existsSync dir file")
  case True
  have eq: "map fst (map (\<lambda>p. if fst p = file then (file, f) else p) dir) = map fst dir"
    by (induction dir) auto
  have "dir_write file f dir = map (\<lambda>p. if fst p = file then (file, f) else p) dir"
    using True by (simp add: dir_write_def)
  then have "map fst (dir_write file f dir) = map fst dir"
    using eq by (simp only:)
  then show ?thesis using assms by (simp only:)
next
  case False
  then have "file \<notin> fst ` set dir"
    by (simp add: existsSync_def map_of_eq_None_iff)
  then show ?thesis using False assms by (simp add: dir_write_def)
qed

lemma videosDir_run_loop: "videosDir (fst (run_loop s t cs content wr)) = videosDir s"
  by (auto simp: run_loop_def catch_block_def split: sum.splits option.splits)

lemma videosDir_generateRecapVideo:
  "videosDir (fst (generateRecapVideo s c m now0 now1 wr)) = videosDir s"
  by (auto simp: generateRecapVideo_def Let_def catch_block_def videosDir_run_loop
      split: sum.splits option.splits)

lemma videosDir_ffmpeg_on_close: "videosDir (fst (ffmpeg_on_close s t code u)) = videosDir s"
  by (auto simp: ffmpeg_on_close_def Let_def split: option.splits)

lemma distinct_videos_step:
  "distinct (map fst (videosDir s)) \<Longrightarrow> distinct (map fst (videosDir (step s e)))"
proof (cases e)
  case (CreateClip c x)
  assume "distinct (map fst (videosDir s))"
  then show ?thesis using CreateClip by (simp add: createClip_def)
next
  case (Request c m n0 n1 wr)
  assume "distinct (map fst (videosDir s))"
  then show ?thesis using Request by (simp add: videosDir_generateRecapVideo)
next
  case (SynthWrites vid)
  assume "distinct (map fst (videosDir s))"
  then show ?thesis using SynthWrites by (auto split: option.splits phase.splits)
next
  case (SynthClose vid wr)
  assume "distinct (map fst (videosDir s))"
  then show ?thesis using SynthClose
    by (auto simp: resume_after_synth_def videosDir_run_loop split: option.splits phase.splits)
next
  case (EncoderWrites vid f)
  assume "distinct (map fst (videosDir s))"
  then show ?thesis using EncoderWrites
    by (auto simp: distinct_dir_write split: option.splits phase.splits)
next
  case (EncodeClose vid code u)
  assume "distinct (map fst (videosDir s))"
  then show ?thesis using EncodeClose
    by (auto simp: videosDir_ffmpeg_on_close split: option.splits phase.splits)
next
  case (Cleanup now failing)
  assume "distinct (map fst (videosDir s))"
  then show ?thesis using Cleanup by (simp add: cleanup_def distinct_sweep_files)
qed

lemma distinct_videos_run:
  "distinct (map fst (videosDir s)) \<Longrightarrow> distinct (map fst (videosDir (run s evs)))"
  unfolding run_def by (induction evs arbitrary: s) (auto simp: distinct_videos_step)

section \<open>Replies of a request\<close>

lemma run_loop_reply:
  "snd (run_loop s t cs content wr) = Suspended \<or>
   (\<exists>msg. snd (run_loop s t cs content wr) = Resolved (RecapError msg))"
  by (auto simp: run_loop_def catch_block_def split: sum.splits option.splits)

lemma fresh_request_reply:
  assumes "\<not> existsSync (videosDir s) (videoFile (mk_videoId c m now0))"
    and "mk_videoId c m now0 \<notin> generatingVideos s"
  shows "snd (generateRecapVideo s c m now0 now1 wr) = Suspended \<or>
         (\<exists>msg. snd (generateRecapVideo s c m now0 now1 wr) = Resolved (RecapError msg))"
  using assms run_loop_reply
  by (auto simp: generateRecapVideo_def Let_def catch_block_def split: sum.splits option.splits)

lemma waitFor_None_iff: "waitFor ss vid = None \<longleftrightarrow> (\<forall>x \<in> set ss. poll x vid = None)"
  by (induction ss) (auto split: option.splits)

lemma waitFor_result:
  "waitFor ss vid = None \<or> waitFor ss vid = Some (RecapRef vid (video_url vid) False)"
  by (induction ss) (auto simp: poll_def split: option.splits)

lemma marker_left_on_exception:
  assumes "\<not> existsSync (videosDir s) (videoFile (mk_videoId c m now0))"
    and "mk_videoId c m now0 \<notin> generatingVideos s"
    and "clips s c = Some cs" "\<exists>x \<in> set cs. \<not> is_date x"
  shows "snd (generateRecapVideo s c m now0 now1 wr) =
           Resolved (RecapError ''clip.startTime.getTime is not a function'') \<and>
         mk_videoId c m now0 \<in> generatingVideos (fst (generateRecapVideo s c m now0 now1 wr))"
proof -
  have "cs \<noteq> []" using assms(4) by auto
  moreover have "relevantClips cs m now1 = Inl ''clip.startTime.getTime is not a function''"
    using filter_before_throws [OF assms(4)] by (simp add: relevantClips_def)
  ultimately show ?thesis
    using assms(1,2,3) videoId_not_catch_key [of c m now0 c m]
    by (simp add: generateRecapVideo_def Let_def catch_block_def)
qed

text \<open>
  The handler of \<^verbatim>\<open>close\<close> clears the marker of its generation with every exit code; an
  exception of \<^verbatim>\<open>writeFileSync\<close> leaves the marker in place, as the one of the filter does.
\<close>

lemma marker_cleared_on_close:
  "task_videoId t \<notin> generatingVideos (fst (ffmpeg_on_close s t code u))"
  by (simp add: ffmpeg_on_close_def Let_def split: option.splits)

lemma marker_left_on_write_failure:
  assumes "task_videoId t \<in> generatingVideos s"
    and "\<forall>c \<in> set cs. clipsDir s (clipFileName c) \<noteq> None"
  shows "snd (run_loop s t cs content (Some msg)) = Resolved (RecapError msg) \<and>
         task_videoId t \<in> generatingVideos (fst (run_loop s t cs content (Some msg)))"
  using assms clip_loop_present [of cs "clipsDir s"]
    videoId_not_catch_key [of "t_channelId t" "t_minutesLate t" "t_now t" "t_channelId t" "t_minutesLate t"]
  by (simp add: run_loop_def catch_block_def task_videoId_def)

section \<open>The sample run\<close>

lemmas model_defs =
  boot_def createClip_def generateRecapVideo_def relevantClips_def array_sort_def
  compare_desc_def run_loop_def catch_block_def resume_after_synth_def ffmpeg_on_close_def
  mk_videoId_def videoFile_def video_url_def listFileName_def clipFileName_def catch_key_def
  task_videoId_def show_int_def show_nat.simps digit_char_def existsSync_def dir_write_def
  dir_unlink_def find_task_def drop_task_def durationPerClip_div manifest_entry_def
  createTestClipVideo_def
  cleanup_def age24h_def Let_def

lemma run_append: "run s (xs @ ys) = run (run s xs) ys"
  by (simp add: run_def)

lemma state_first_request:
  "run fresh first_request =
     \<lparr>clips = [''c1'' \<mapsto> [clip_a, clip_b, clip_c]],
      generatingVideos = {''c1_0min_1000000''},
      videosDir = [],
      clipsDir = Map.empty,
      tempDir = Map.empty,
      tasks = [\<lparr>t_channelId = ''c1'', t_minutesLate = 0, t_now = 1000000, t_count = 3,
                t_phase = AwaitSynth clip_c [clip_b, clip_a] []\<rparr>]\<rparr>"
  by (simp add: run_def fresh_def three_clips_def first_request_def
      clip_a_def clip_b_def clip_c_def sample_clip_def model_defs)

lemma state_until_encode:
  "run fresh until_encode =
     \<lparr>clips = [''c1'' \<mapsto> [clip_a, clip_b, clip_c]],
      generatingVideos = {''c1_0min_1000000''},
      videosDir = [],
      clipsDir = [''clip_c.mp4'' \<mapsto> 20, ''clip_b.mp4'' \<mapsto> 20, ''clip_a.mp4'' \<mapsto> 20],
      tempDir = [''c1_0min_1000000_list.txt'' \<mapsto>
         manifest_entry ''clip_c.mp4'' 20 @ manifest_entry ''clip_b.mp4'' 20 @
         manifest_entry ''clip_a.mp4'' 20],
      tasks = [\<lparr>t_channelId = ''c1'', t_minutesLate = 0, t_now = 1000000, t_count = 3,
                t_phase = AwaitEncode\<rparr>]\<rparr>"
  by (simp add: run_def fresh_def three_clips_def first_request_def until_encode_def
      clip_a_def clip_b_def clip_c_def sample_clip_def model_defs)

lemma state_encode_ok:
  "run fresh encode_ok =
     \<lparr>clips = [''c1'' \<mapsto> [clip_a, clip_b, clip_c]],
      generatingVideos = {},
      videosDir = [(''c1_0min_1000000.mp4'', \<lparr>mtimeMs = 1004000, size_bytes = 4096\<rparr>)],
      clipsDir = [''clip_c.mp4'' \<mapsto> 20, ''clip_b.mp4'' \<mapsto> 20, ''clip_a.mp4'' \<mapsto> 20],
      tempDir = Map.empty,
      tasks = []\<rparr>"
  by (simp add: run_def fresh_def three_clips_def first_request_def until_encode_def encode_ok_def
      clip_a_def clip_b_def clip_c_def sample_clip_def model_defs)

lemma state_encode_failed:
  "run fresh encode_failed =
     \<lparr>clips = [''c1'' \<mapsto> [clip_a, clip_b, clip_c]],
      generatingVideos = {},
      videosDir = [],
      clipsDir = [''clip_c.mp4'' \<mapsto> 20, ''clip_b.mp4'' \<mapsto> 20, ''clip_a.mp4'' \<mapsto> 20],
      tempDir = Map.empty,
      tasks = []\<rparr>"
  by (simp add: run_def fresh_def three_clips_def first_request_def until_encode_def encode_failed_def
      clip_a_def clip_b_def clip_c_def sample_clip_def model_defs)

lemma state_second_request:
  "run fresh second_request =
     \<lparr>clips = [''c1'' \<mapsto> [clip_a, clip_b, clip_c]],
      generatingVideos = {''c1_0min_1000001'', ''c1_0min_1000000''},
      videosDir = [],
      clipsDir = [''clip_c.mp4'' \<mapsto> 20, ''clip_b.mp4'' \<mapsto> 20, ''clip_a.mp4'' \<mapsto> 20],
      tempDir = [''c1_0min_1000000_list.txt'' \<mapsto>
         manifest_entry ''clip_c.mp4'' 20 @ manifest_entry ''clip_b.mp4'' 20 @
         manifest_entry ''clip_a.mp4'' 20,
        ''c1_0min_1000001_list.txt'' \<mapsto>
         manifest_entry ''clip_c.mp4'' 20 @ manifest_entry ''clip_b.mp4'' 20 @
         manifest_entry ''clip_a.mp4'' 20],
      tasks = [\<lparr>t_channelId = ''c1'', t_minutesLate = 0, t_now = 1000000, t_count = 3,
                t_phase = AwaitEncode\<rparr>,
               \<lparr>t_channelId = ''c1'', t_minutesLate = 0, t_now = 1000001, t_count = 3,
                t_phase = AwaitEncode\<rparr>]\<rparr>"
  unfolding second_request_def run_append state_until_encode
  by (simp add: run_def model_defs clip_a_def clip_b_def clip_c_def sample_clip_def)

lemma state_both_written:
  "run fresh both_written =
     (run fresh second_request)
       \<lparr>videosDir := [(''c1_0min_1000000.mp4'', \<lparr>mtimeMs = 1004000, size_bytes = 4096\<rparr>),
                      (''c1_0min_1000001.mp4'', \<lparr>mtimeMs = 1004001, size_bytes = 4096\<rparr>)]\<rparr>"
  unfolding both_written_def run_append state_second_request
  by (simp add: run_def model_defs)

lemma state_partial_output:
  "run fresh partial_output =
     \<lparr>clips = [''c1'' \<mapsto> [clip_a, clip_b, clip_c]],
      generatingVideos = {},
      videosDir = [(''c1_0min_1000000.mp4'', \<lparr>mtimeMs = 1003000, size_bytes = 512\<rparr>)],
      clipsDir = [''clip_c.mp4'' \<mapsto> 20, ''clip_b.mp4'' \<mapsto> 20, ''clip_a.mp4'' \<mapsto> 20],
      tempDir = Map.empty,
      tasks = []\<rparr>"
  unfolding partial_output_def run_append state_until_encode
  by (simp add: run_def model_defs)

section \<open>Requests with the same \<^verbatim>\<open>videoId\<close>\<close>

text \<open>
  \<^verbatim>\<open>videoId\<close> is the key of the code. In every state that the server reaches from its
  start no two running encoders and no two suspended generations have one \<^verbatim>\<open>videoId\<close>,
  and a request with the \<^verbatim>\<open>videoId\<close> of a suspended generation changes nothing and starts
  nothing. Two requests have one \<^verbatim>\<open>videoId\<close> only when they read the same \<^verbatim>\<open>Date.now()\<close>.
\<close>

lemma one_generation_per_videoId:
  assumes "s = run (boot vdir cdir tdir) evs"
  shows "distinct (encoders s) \<and>
         distinct (map task_videoId (tasks s)) \<and>
         (\<forall>t \<in> set (tasks s). \<forall>now1 wr.
            generateRecapVideo s (t_channelId t) (t_minutesLate t) (t_now t) now1 wr =
              (s, Polling (task_videoId t)) \<or>
            generateRecapVideo s (t_channelId t) (t_minutesLate t) (t_now t) now1 wr =
              (s, Resolved (RecapRef (task_videoId t) (video_url (task_videoId t)) True))) \<and>
         (\<forall>t s0 u s' r. ffmpeg_on_close s0 t 0 u = (s', Some r) \<longrightarrow>
            (\<exists>sz d. r = RecapNew (task_videoId t) (video_url (task_videoId t)) sz d) \<and>
            poll s' (task_videoId t) = Some (RecapRef (task_videoId t) (video_url (task_videoId t)) False))"
proof -
  have wf: "wf_tasks s" unfolding assms by (rule wf_run [OF wf_boot])
  then have d: "distinct (map task_videoId (tasks s))" by (simp add: wf_tasks_def)
  then have e: "distinct (encoders s)" by (simp add: encoders_def distinct_map_filter)
  have req: "generateRecapVideo s (t_channelId t) (t_minutesLate t) (t_now t) now1 wr =
              (s, Polling (task_videoId t)) \<or>
            generateRecapVideo s (t_channelId t) (t_minutesLate t) (t_now t) now1 wr =
              (s, Resolved (RecapRef (task_videoId t) (video_url (task_videoId t)) True))"
    if "t \<in> set (tasks s)" for t now1 wr
  proof -
    have "mk_videoId (t_channelId t) (t_minutesLate t) (t_now t) \<in> generatingVideos s"
      using wf that by (auto simp: wf_tasks_def task_videoId_def)
    then show ?thesis
      using in_flight_request [of "t_channelId t" "t_minutesLate t" "t_now t" s now1 wr]
      by (simp add: task_videoId_def)
  qed
  have fin: "(\<exists>sz d. r = RecapNew (task_videoId t) (video_url (task_videoId t)) sz d) \<and>
            poll s' (task_videoId t) = Some (RecapRef (task_videoId t) (video_url (task_videoId t)) False)"
    if "ffmpeg_on_close s0 t 0 u = (s', Some r)" for t s0 u s' r
    using that
    by (auto simp: ffmpeg_on_close_def Let_def poll_def existsSync_def split: option.splits if_splits)
  show ?thesis using d e req fin by blast
qed

text \<open>
  A request that is neither answered from the cache nor waiting: with no stored clip the
  result is \<^verbatim>\<open>No clips available\<close>; with clips of which the filter returns none (all of
  them Date objects, none before the cutoff) it is \<^verbatim>\<open>No relevant clips\<close>; the state is
  unchanged in both cases.
\<close>

lemma selection_errors:
  assumes "\<not> existsSync (videosDir s) (videoFile (mk_videoId c m now0))"
    and "mk_videoId c m now0 \<notin> generatingVideos s"
  shows "((clips s c = None \<or> clips s c = Some []) \<longrightarrow>
            generateRecapVideo s c m now0 now1 wr =
              (s, Resolved (RecapError ''No clips available''))) \<and>
         (\<forall>cs. clips s c = Some cs \<and> cs \<noteq> [] \<and>
               filter_before (now1 - m * 60000) cs = Inr [] \<longrightarrow>
            generateRecapVideo s c m now0 now1 wr =
              (s, Resolved (RecapError ''No relevant clips''))) \<and>
         RecapError ''No clips available'' \<noteq> RecapError ''No relevant clips''"
proof (intro conjI allI impI)
  assume "clips s c = None \<or> clips s c = Some []"
  then show "generateRecapVideo s c m now0 now1 wr = (s, Resolved (RecapError ''No clips available''))"
    using assms by (auto simp: generateRecapVideo_def Let_def)
next
  fix cs
  assume a: "clips s c = Some cs \<and> cs \<noteq> [] \<and> filter_before (now1 - m * 60000) cs = Inr []"
  then have "relevantClips cs m now1 = Inr []"
    by (simp add: relevantClips_def array_sort_def)
  then show "generateRecapVideo s c m now0 now1 wr = (s, Resolved (RecapError ''No relevant clips''))"
    using a assms by (auto simp: generateRecapVideo_def Let_def)
next
  show "RecapError ''No clips available'' \<noteq> RecapError ''No relevant clips''" by simp
qed

section \<open>Claims\<close>

text \<open>
  C1 (fails on the code). The key of a request is \<^verbatim>\<open>videoId\<close>, which ends with
  \<^verbatim>\<open>Date.now()\<close> of the request. In the sample run a generation for channel \<^verbatim>\<open>c1\<close>
  and \<^verbatim>\<open>minutesLate = 0\<close>, requested at \<open>1000000\<close>, has completed and its video is in
  the directory. The same request one millisecond later has another key: it is not
  answered from the cache, it suspends on a second run of the encoder.
\<close>

theorem key_embeds_instant:
  "existsSync (videosDir (run fresh encode_ok)) (videoFile (mk_videoId ''c1'' 0 1000000)) \<and>
   mk_videoId ''c1'' 0 1000001 \<noteq> mk_videoId ''c1'' 0 1000000 \<and>
   snd (generateRecapVideo (run fresh encode_ok) ''c1'' 0 1000001 1000001 None) = Suspended \<and>
   encoders (fst (generateRecapVideo (run fresh encode_ok) ''c1'' 0 1000001 1000001 None)) =
     [''c1_0min_1000001'']"
  by (simp add: state_encode_ok) (simp add: model_defs encoders_def clip_a_def clip_b_def clip_c_def sample_clip_def)

text \<open>
  C2 (fails on the code). The key of the claim is the channel and \<^verbatim>\<open>minutesLate\<close>; the
  code looks up \<^verbatim>\<open>videoId\<close>, which ends with \<^verbatim>\<open>Date.now()\<close>. While the encoder of the
  request for \<^verbatim>\<open>c1\<close> and \<^verbatim>\<open>minutesLate = 0\<close> at \<open>1000000\<close> runs, the same request at
  \<open>1000001\<close> finds neither file nor marker under its own \<^verbatim>\<open>videoId\<close> and starts a second
  encoder: two encoders run at once, and when both close with exit code 0 the two callers
  are answered with two different videos.
\<close>

theorem two_encoders_for_one_request:
  "encoders (run fresh until_encode) = [''c1_0min_1000000''] \<and>
   snd (generateRecapVideo (run fresh until_encode) ''c1'' 0 1000001 1000001 None) = Suspended \<and>
   encoders (run fresh second_request) = [''c1_0min_1000000'', ''c1_0min_1000001''] \<and>
   snd (ffmpeg_on_close (run fresh both_written)
          \<lparr>t_channelId = ''c1'', t_minutesLate = 0, t_now = 1000000, t_count = 3, t_phase = AwaitEncode\<rparr>
          0 True) =
     Some (RecapNew ''c1_0min_1000000'' ''/videos/c1_0min_1000000.mp4'' 4096 60) \<and>
   snd (ffmpeg_on_close (run fresh (both_written @ [EncodeClose ''c1_0min_1000000'' 0 True]))
          \<lparr>t_channelId = ''c1'', t_minutesLate = 0, t_now = 1000001, t_count = 3, t_phase = AwaitEncode\<rparr>
          0 True) =
     Some (RecapNew ''c1_0min_1000001'' ''/videos/c1_0min_1000001.mp4'' 4096 60)"
proof -
  have a: "encoders (run fresh until_encode) = [''c1_0min_1000000'']"
    unfolding state_until_encode by (simp add: encoders_def model_defs)
  have b: "snd (generateRecapVideo (run fresh until_encode) ''c1'' 0 1000001 1000001 None) = Suspended"
    unfolding state_until_encode
    by (simp add: model_defs clip_a_def clip_b_def clip_c_def sample_clip_def)
  have c: "encoders (run fresh second_request) = [''c1_0min_1000000'', ''c1_0min_1000001'']"
    unfolding state_second_request by (simp add: encoders_def model_defs)
  have d: "snd (ffmpeg_on_close (run fresh both_written)
          \<lparr>t_channelId = ''c1'', t_minutesLate = 0, t_now = 1000000, t_count = 3, t_phase = AwaitEncode\<rparr>
          0 True) =
     Some (RecapNew ''c1_0min_1000000'' ''/videos/c1_0min_1000000.mp4'' 4096 60)"
    unfolding state_both_written state_second_request by (simp add: model_defs)
  have e: "snd (ffmpeg_on_close (run fresh (both_written @ [EncodeClose ''c1_0min_1000000'' 0 True]))
          \<lparr>t_channelId = ''c1'', t_minutesLate = 0, t_now = 1000001, t_count = 3, t_phase = AwaitEncode\<rparr>
          0 True) =
     Some (RecapNew ''c1_0min_1000001'' ''/videos/c1_0min_1000001.mp4'' 4096 60)"
    unfolding run_append state_both_written state_second_request
    by (simp add: run_def model_defs)
  show ?thesis using a b c d e by simp
qed

text \<open>
  C3 (fails on the code). The only clip of channel \<^verbatim>\<open>c1\<close> was stored by the
  category-change webhook, so its \<^verbatim>\<open>startTime\<close> is a number. The callback of the filter
  throws after line 259 has set the marker, and the \<^verbatim>\<open>catch\<close> block deletes the key
  \<^verbatim>\<open>c1_0min\<close>, which is not the marker. The call returns the message of the exception
  and the marker \<^verbatim>\<open>c1_0min_1000000\<close> stays in \<^verbatim>\<open>generatingVideos\<close>, with no generation
  suspended that could clear it.
\<close>

theorem catch_leaves_marker:
  "generatingVideos (run fresh [CreateClip ''c1'' clip_w]) = {} \<and>
   snd (generateRecapVideo (run fresh [CreateClip ''c1'' clip_w]) ''c1'' 0 1000000 1000000 None) =
     Resolved (RecapError ''clip.startTime.getTime is not a function'') \<and>
   generatingVideos
     (fst (generateRecapVideo (run fresh [CreateClip ''c1'' clip_w]) ''c1'' 0 1000000 1000000 None)) =
     {''c1_0min_1000000''} \<and>
   tasks (fst (generateRecapVideo (run fresh [CreateClip ''c1'' clip_w]) ''c1'' 0 1000000 1000000 None)) = []"
  by (simp add: run_def fresh_def clip_w_def sample_clip_def model_defs)

text \<open>
  C4 (fails on the code). A channel holds a clip stored by the clip route and a clip
  stored by the category-change webhook, both started before the cutoff. The callback of
  the filter throws on the number: the selection is an exception, not the two clips.
\<close>

theorem selection_throws_on_number:
  "relevantClips [clip_a, clip_w] 0 1000000 = Inl ''clip.startTime.getTime is not a function'' \<and>
   before (1000000 - 0 * 60000) clip_a \<and> before (1000000 - 0 * 60000) clip_w"
  by (simp add: relevantClips_def before_def clip_a_def clip_w_def sample_clip_def)

text \<open>
  C5 (fails on the code). The only clip of channel \<^verbatim>\<open>c1\<close> was stored by the
  category-change webhook and does not start before the cutoff of a request with
  \<^verbatim>\<open>minutesLate = 1\<close> at \<open>1000000\<close>: the clip set is not empty, and no clip is before the
  cutoff. The callback of the filter throws on the number; the result is the message of
  the exception, not \<^verbatim>\<open>No relevant clips\<close>, and the marker of the request stays.
\<close>

theorem webhook_clip_after_cutoff:
  "clips (run fresh [CreateClip ''c1'' clip_w]) ''c1'' = Some [clip_w] \<and>
   \<not> before (1000000 - 1 * 60000) clip_w \<and>
   generatingVideos (run fresh [CreateClip ''c1'' clip_w]) = {} \<and>
   snd (generateRecapVideo (run fresh [CreateClip ''c1'' clip_w]) ''c1'' 1 1000000 1000000 None) =
     Resolved (RecapError ''clip.startTime.getTime is not a function'') \<and>
   generatingVideos
     (fst (generateRecapVideo (run fresh [CreateClip ''c1'' clip_w]) ''c1'' 1 1000000 1000000 None)) =
     {''c1_1min_1000000''}"
  by (simp add: run_def fresh_def before_def clip_w_def sample_clip_def model_defs)



text \<open>
  C7 (amended). A request whose key is in flight, with no video file yet, changes nothing
  and starts nothing: it polls. The poll looks at \<^verbatim>\<open>generatingVideos\<close> and at the file
  system, tick after tick; it ends only with \<^verbatim>\<open>{id, url, cached: false}\<close>, never with an
  error; and it is still pending after any number of ticks that all find the marker set
  or the file missing.
\<close>

theorem waiter_polls:
  assumes "\<not> existsSync (videosDir s) (videoFile (mk_videoId c m now0))"
    and "mk_videoId c m now0 \<in> generatingVideos s"
  shows "generateRecapVideo s c m now0 now1 wr = (s, Polling (mk_videoId c m now0)) \<and>
         (\<forall>ss vid. waitFor ss vid = None \<or>
                   waitFor ss vid = Some (RecapRef vid (video_url vid) False)) \<and>
         (\<forall>ss vid. waitFor ss vid = None \<longleftrightarrow>
                   (\<forall>x \<in> set ss. vid \<in> generatingVideos x \<or>
                                  \<not> existsSync (videosDir x) (videoFile vid)))"
proof -
  have "generateRecapVideo s c m now0 now1 wr = (s, Polling (mk_videoId c m now0))"
    using assms by (simp add: generateRecapVideo_def Let_def)
  moreover have "waitFor ss vid = None \<longleftrightarrow>
      (\<forall>x \<in> set ss. vid \<in> generatingVideos x \<or> \<not> existsSync (videosDir x) (videoFile vid))"
    for ss vid
    unfolding waitFor_None_iff by (auto simp: poll_def)
  ultimately show ?thesis using waitFor_result by blast
qed

theorem waiter_polls_witness:
  "generateRecapVideo (run fresh first_request) ''c1'' 0 1000000 1000002 None =
     (run fresh first_request, Polling ''c1_0min_1000000'') \<and>
   waitFor [run fresh first_request, run fresh until_encode] ''c1_0min_1000000'' = None \<and>
   waitFor [run fresh first_request, run fresh until_encode, run fresh encode_ok] ''c1_0min_1000000'' =
     Some (RecapRef ''c1_0min_1000000'' ''/videos/c1_0min_1000000.mp4'' False)"
proof -
  have vid: "mk_videoId ''c1'' 0 1000000 = ''c1_0min_1000000''" by (simp add: model_defs)
  have g: "\<not> existsSync (videosDir (run fresh first_request)) (videoFile (mk_videoId ''c1'' 0 1000000))"
    "mk_videoId ''c1'' 0 1000000 \<in> generatingVideos (run fresh first_request)"
    by (simp_all add: state_first_request vid existsSync_def)
  note w = waiter_polls [OF g, of 1000002 None]
  have one: "generateRecapVideo (run fresh first_request) ''c1'' 0 1000000 1000002 None =
     (run fresh first_request, Polling ''c1_0min_1000000'')"
    using w vid by simp
  have "\<forall>x \<in> set [run fresh first_request, run fresh until_encode].
          ''c1_0min_1000000'' \<in> generatingVideos x \<or>
          \<not> existsSync (videosDir x) (videoFile ''c1_0min_1000000'')"
    by (simp add: state_first_request state_until_encode)
  then have two: "waitFor [run fresh first_request, run fresh until_encode] ''c1_0min_1000000'' = None"
    using w by blast
  have three: "waitFor [run fresh first_request, run fresh until_encode, run fresh encode_ok] ''c1_0min_1000000'' =
     Some (RecapRef ''c1_0min_1000000'' ''/videos/c1_0min_1000000.mp4'' False)"
    by (simp add: state_first_request state_until_encode state_encode_ok poll_def existsSync_def
        videoFile_def video_url_def)
  show ?thesis using one two three by simp
qed

text \<open>
  C7 as stated fails: the request polls, and when the generation has failed (the marker is
  cleared, there is no file) no number of ticks ends the poll.
\<close>

theorem unbounded_wait_counterexample:
  "generateRecapVideo (run fresh first_request) ''c1'' 0 1000000 1000002 None =
     (run fresh first_request, Polling ''c1_0min_1000000'') \<and>
   \<not> (\<exists>n. waitFor (replicate n (run fresh encode_failed)) ''c1_0min_1000000'' \<noteq> None)"
proof -
  have "poll (run fresh encode_failed) ''c1_0min_1000000'' = None"
    by (simp add: state_encode_failed poll_def existsSync_def)
  then have "waitFor (replicate n (run fresh encode_failed)) ''c1_0min_1000000'' = None" for n
    by (simp add: waitFor_None_iff)
  moreover have "generateRecapVideo (run fresh first_request) ''c1'' 0 1000000 1000002 None =
     (run fresh first_request, Polling ''c1_0min_1000000'')"
    by (simp add: state_first_request generateRecapVideo_def Let_def existsSync_def mk_videoId_def
        videoFile_def show_int_def show_nat.simps digit_char_def)
  ultimately show ?thesis by simp
qed

text \<open>
  C8 (amended). When the encoder closes with a nonzero exit code, the result is the error
  \<^verbatim>\<open>Failed to generate video\<close>, whatever the code; the handler clears the marker of the
  key, treats the list file as it does with exit code 0 and removes it when
  \<^verbatim>\<open>unlinkSync\<close> succeeds, and puts no file into the video directory: a file that was
  not there before the handler is not there after it. A later request for the same channel
  and \<^verbatim>\<open>minutesLate\<close>, at the instant of the failed generation or at another one, that has
  no video file under its \<^verbatim>\<open>videoId\<close> (and, at another instant, no marker) is not answered
  from the cache or by a poll: it runs the generation again. Nothing is said here of an
  output file that the failed encoder left.
\<close>

theorem encoder_failure:
  assumes "code \<noteq> 0"
  shows "\<exists>s'. ffmpeg_on_close s t code u = (s', Some (RecapError ''Failed to generate video'')) \<and>
          task_videoId t \<notin> generatingVideos s' \<and>
          tempDir s' = tempDir (fst (ffmpeg_on_close s t 0 u)) \<and>
          (u \<longrightarrow> tempDir s' (listFileName (task_videoId t)) = None) \<and>
          (\<forall>f. \<not> existsSync (videosDir s) f \<longrightarrow> \<not> existsSync (videosDir s') f) \<and>
          (\<forall>now0 now1 wr.
             \<not> existsSync (videosDir s) (videoFile (mk_videoId (t_channelId t) (t_minutesLate t) now0)) \<and>
             (now0 = t_now t \<or>
              mk_videoId (t_channelId t) (t_minutesLate t) now0 \<notin> generatingVideos s) \<longrightarrow>
             snd (generateRecapVideo s' (t_channelId t) (t_minutesLate t) now0 now1 wr) = Suspended \<or>
             (\<exists>msg. snd (generateRecapVideo s' (t_channelId t) (t_minutesLate t) now0 now1 wr) =
                     Resolved (RecapError msg)))"
proof -
  let ?vid = "task_videoId t"
  let ?s1 = "s\<lparr>generatingVideos := generatingVideos s - {?vid}\<rparr>"
  let ?s2 = "if u then ?s1\<lparr>tempDir := (tempDir ?s1)(listFileName ?vid := None)\<rparr> else ?s1"
  have r: "ffmpeg_on_close s t code u = (?s2, Some (RecapError ''Failed to generate video''))"
    using assms by (simp add: ffmpeg_on_close_def Let_def)
  have v: "videosDir ?s2 = videosDir s" "generatingVideos ?s2 = generatingVideos s - {?vid}"
    by auto
  have m: "?vid \<notin> generatingVideos ?s2" by auto
  have tmp: "tempDir ?s2 = tempDir (fst (ffmpeg_on_close s t 0 u))"
    by (auto simp: ffmpeg_on_close_def Let_def split: option.splits)
  have rm: "u \<longrightarrow> tempDir ?s2 (listFileName ?vid) = None" by simp
  have nofile: "\<not> existsSync (videosDir ?s2) f" if "\<not> existsSync (videosDir s) f" for f
    using that v(1) by simp
  have retry: "snd (generateRecapVideo ?s2 (t_channelId t) (t_minutesLate t) now0 now1 wr) = Suspended \<or>
      (\<exists>msg. snd (generateRecapVideo ?s2 (t_channelId t) (t_minutesLate t) now0 now1 wr) =
              Resolved (RecapError msg))"
    if h: "\<not> existsSync (videosDir s) (videoFile (mk_videoId (t_channelId t) (t_minutesLate t) now0)) \<and>
        (now0 = t_now t \<or> mk_videoId (t_channelId t) (t_minutesLate t) now0 \<notin> generatingVideos s)"
    for now0 now1 wr
  proof (rule fresh_request_reply)
    show "\<not> existsSync (videosDir ?s2) (videoFile (mk_videoId (t_channelId t) (t_minutesLate t) now0))"
      using h v(1) by simp
    show "mk_videoId (t_channelId t) (t_minutesLate t) now0 \<notin> generatingVideos ?s2"
      using h v(2) by (auto simp: task_videoId_def)
  qed
  show ?thesis
    using r m tmp rm nofile retry by blast
qed

theorem encoder_failure_witness:
  "(1::int) \<noteq> 0 \<and>
   ffmpeg_on_close (run fresh until_encode)
      \<lparr>t_channelId = ''c1'', t_minutesLate = 0, t_now = 1000000, t_count = 3, t_phase = AwaitEncode\<rparr>
      1 True =
     ((run fresh until_encode)\<lparr>generatingVideos := {}, tempDir := Map.empty\<rparr>,
      Some (RecapError ''Failed to generate video'')) \<and>
   \<not> existsSync (videosDir (run fresh until_encode)) (videoFile (mk_videoId ''c1'' 0 1000000)) \<and>
   \<not> existsSync (videosDir (run fresh until_encode)) (videoFile (mk_videoId ''c1'' 0 1000009)) \<and>
   mk_videoId ''c1'' 0 1000009 \<notin> generatingVideos (run fresh until_encode) \<and>
   snd (generateRecapVideo ((run fresh until_encode)\<lparr>generatingVideos := {}, tempDir := Map.empty\<rparr>)
          ''c1'' 0 1000000 1000009 None) = Suspended \<and>
   snd (generateRecapVideo ((run fresh until_encode)\<lparr>generatingVideos := {}, tempDir := Map.empty\<rparr>)
          ''c1'' 0 1000009 1000009 None) = Suspended \<and>
   videosDir (run fresh (encode_failed @
       [Request ''c1'' 0 1000009 1000009 None,
        EncoderWrites ''c1_0min_1000009'' \<lparr>mtimeMs = 1012000, size_bytes = 4096\<rparr>,
        EncodeClose ''c1_0min_1000009'' 0 True])) =
     [(''c1_0min_1000009.mp4'', \<lparr>mtimeMs = 1012000, size_bytes = 4096\<rparr>)]"
proof -
  let ?t = "\<lparr>t_channelId = ''c1'', t_minutesLate = 0, t_now = 1000000, t_count = 3, t_phase = AwaitEncode\<rparr>"
  let ?S = "run fresh until_encode"
  let ?S' = "(run fresh until_encode)\<lparr>generatingVideos := {}, tempDir := Map.empty\<rparr>"
  have ne: "(1::int) \<noteq> 0" by simp
  obtain s' where s': "ffmpeg_on_close ?S ?t 1 True = (s', Some (RecapError ''Failed to generate video''))"
    and retry: "\<forall>now0 now1 wr.
             \<not> existsSync (videosDir ?S)
                  (videoFile (mk_videoId (t_channelId ?t) (t_minutesLate ?t) now0)) \<and>
             (now0 = t_now ?t \<or>
              mk_videoId (t_channelId ?t) (t_minutesLate ?t) now0 \<notin> generatingVideos ?S) \<longrightarrow>
             snd (generateRecapVideo s' (t_channelId ?t) (t_minutesLate ?t) now0 now1 wr) = Suspended \<or>
             (\<exists>msg. snd (generateRecapVideo s' (t_channelId ?t) (t_minutesLate ?t) now0 now1 wr) =
                     Resolved (RecapError msg))"
    using encoder_failure [OF ne, of ?S ?t True] by blast
  have "fst (ffmpeg_on_close ?S ?t 1 True) = ?S'"
    by (simp add: state_until_encode model_defs)
  then have eq: "s' = ?S'" using s' by simp
  then have one: "ffmpeg_on_close ?S ?t 1 True = (?S', Some (RecapError ''Failed to generate video''))"
    using s' by simp
  have h0: "\<not> existsSync (videosDir ?S) (videoFile (mk_videoId ''c1'' 0 1000000))"
    and h9: "\<not> existsSync (videosDir ?S) (videoFile (mk_videoId ''c1'' 0 1000009))"
    and m9: "mk_videoId ''c1'' 0 1000009 \<notin> generatingVideos ?S"
    unfolding state_until_encode by (simp_all add: model_defs)
  have r0: "snd (generateRecapVideo ?S' ''c1'' 0 1000000 1000009 None) = Suspended \<or>
      (\<exists>msg. snd (generateRecapVideo ?S' ''c1'' 0 1000000 1000009 None) = Resolved (RecapError msg))"
    using retry h0 eq by auto
  have r9: "snd (generateRecapVideo ?S' ''c1'' 0 1000009 1000009 None) = Suspended \<or>
      (\<exists>msg. snd (generateRecapVideo ?S' ''c1'' 0 1000009 1000009 None) = Resolved (RecapError msg))"
    using retry h9 m9 eq by auto
  have two: "snd (generateRecapVideo ?S' ''c1'' 0 1000000 1000009 None) = Suspended"
    unfolding state_until_encode
    by (simp add: model_defs clip_a_def clip_b_def clip_c_def sample_clip_def)
  have two': "snd (generateRecapVideo ?S' ''c1'' 0 1000009 1000009 None) = Suspended"
    unfolding state_until_encode
    by (simp add: model_defs clip_a_def clip_b_def clip_c_def sample_clip_def)
  have three: "videosDir (run fresh (encode_failed @
       [Request ''c1'' 0 1000009 1000009 None,
        EncoderWrites ''c1_0min_1000009'' \<lparr>mtimeMs = 1012000, size_bytes = 4096\<rparr>,
        EncodeClose ''c1_0min_1000009'' 0 True])) =
     [(''c1_0min_1000009.mp4'', \<lparr>mtimeMs = 1012000, size_bytes = 4096\<rparr>)]"
    unfolding run_append state_encode_failed
    by (simp add: run_def model_defs clip_a_def clip_b_def clip_c_def sample_clip_def)
  show ?thesis using one h0 h9 m9 r0 r9 two two' three by simp
qed

text \<open>
  C8 as stated fails twice. Exit codes 1 and 2 give the same result, which carries no exit
  code. And when the encoder has written part of its output before it closes with exit
  code 1, the file stays in the video directory and the next request with that
  \<^verbatim>\<open>videoId\<close> is answered with it as the cached video of the key.
\<close>

theorem encoder_failure_counterexample:
  "snd (ffmpeg_on_close (run fresh until_encode)
      \<lparr>t_channelId = ''c1'', t_minutesLate = 0, t_now = 1000000, t_count = 3, t_phase = AwaitEncode\<rparr>
      1 True) = Some (RecapError ''Failed to generate video'') \<and>
   snd (ffmpeg_on_close (run fresh until_encode)
      \<lparr>t_channelId = ''c1'', t_minutesLate = 0, t_now = 1000000, t_count = 3, t_phase = AwaitEncode\<rparr>
      2 True) = Some (RecapError ''Failed to generate video'') \<and>
   videosDir (run fresh partial_output) =
     [(''c1_0min_1000000.mp4'', \<lparr>mtimeMs = 1003000, size_bytes = 512\<rparr>)] \<and>
   generateRecapVideo (run fresh partial_output) ''c1'' 0 1000000 1000009 None =
     (run fresh partial_output,
      Resolved (RecapRef ''c1_0min_1000000'' ''/videos/c1_0min_1000000.mp4'' True))"
proof -
  have a: "videosDir (run fresh partial_output) =
     [(''c1_0min_1000000.mp4'', \<lparr>mtimeMs = 1003000, size_bytes = 512\<rparr>)]"
    by (simp add: state_partial_output)
  have b: "generateRecapVideo (run fresh partial_output) ''c1'' 0 1000000 1000009 None =
     (run fresh partial_output,
      Resolved (RecapRef ''c1_0min_1000000'' ''/videos/c1_0min_1000000.mp4'' True))"
    unfolding state_partial_output by (simp add: model_defs)
  show ?thesis using a b by (simp add: ffmpeg_on_close_def Let_def)
qed

text \<open>
  C9 (amended). The directory holds each name once. When no expired file resists
  \<^verbatim>\<open>unlinkSync\<close>, a sweep deletes exactly the files whose age exceeds 24 hours and keeps
  the others, in their order. When an expired file resists, the sweep ends at the first
  such file: the files listed before it are swept, that file and every file listed after
  it stay, expired or not.
\<close>

theorem cleanup_sweep:
  assumes "distinct (map fst (videosDir s))"
  shows "((\<forall>p \<in> set (videosDir s). expired now (snd p) \<longrightarrow> fst p \<notin> set failing) \<longrightarrow>
            videosDir (cleanup s now failing) =
              filter (\<lambda>p. \<not> expired now (snd p)) (videosDir s)) \<and>
         (\<forall>pre g sg post.
            videosDir s = pre @ (g, sg) # post \<and> expired now sg \<and> g \<in> set failing \<and>
            (\<forall>p \<in> set pre. expired now (snd p) \<longrightarrow> fst p \<notin> set failing) \<longrightarrow>
            videosDir (cleanup s now failing) =
              filter (\<lambda>p. \<not> expired now (snd p)) pre @ (g, sg) # post)"
proof (intro conjI allI impI)
  assume "\<forall>p \<in> set (videosDir s). expired now (snd p) \<longrightarrow> fst p \<notin> set failing"
  then show "videosDir (cleanup s now failing) = filter (\<lambda>p. \<not> expired now (snd p)) (videosDir s)"
    using sweep_files_no_failure [of "[]" "videosDir s" now failing] assms
    by (simp add: cleanup_def)
next
  fix pre g sg post
  assume a: "videosDir s = pre @ (g, sg) # post \<and> expired now sg \<and> g \<in> set failing \<and>
            (\<forall>p \<in> set pre. expired now (snd p) \<longrightarrow> fst p \<notin> set failing)"
  then show "videosDir (cleanup s now failing) =
              filter (\<lambda>p. \<not> expired now (snd p)) pre @ (g, sg) # post"
    using sweep_files_failure [of "[]" pre g sg post now failing] assms
    by (simp add: cleanup_def)
qed

theorem cleanup_sweep_witness:
  "videosDir (cleanup (boot [(''old.mp4'', \<lparr>mtimeMs = 0, size_bytes = 1\<rparr>),
                             (''new.mp4'', \<lparr>mtimeMs = 86400000, size_bytes = 1\<rparr>)]
                        Map.empty Map.empty) 90000000 []) =
     [(''new.mp4'', \<lparr>mtimeMs = 86400000, size_bytes = 1\<rparr>)] \<and>
   videosDir (cleanup (boot [(''new.mp4'', \<lparr>mtimeMs = 86400000, size_bytes = 1\<rparr>),
                             (''old.mp4'', \<lparr>mtimeMs = 0, size_bytes = 1\<rparr>),
                             (''a.mp4'', \<lparr>mtimeMs = 0, size_bytes = 1\<rparr>),
                             (''b.mp4'', \<lparr>mtimeMs = 0, size_bytes = 1\<rparr>)]
                        Map.empty Map.empty) 90000000 [''a.mp4'']) =
     [(''new.mp4'', \<lparr>mtimeMs = 86400000, size_bytes = 1\<rparr>),
      (''a.mp4'', \<lparr>mtimeMs = 0, size_bytes = 1\<rparr>),
      (''b.mp4'', \<lparr>mtimeMs = 0, size_bytes = 1\<rparr>)]"
proof -
  let ?new = "(''new.mp4'', \<lparr>mtimeMs = 86400000, size_bytes = 1\<rparr>)"
  let ?old = "(''old.mp4'', \<lparr>mtimeMs = 0, size_bytes = 1\<rparr>)"
  let ?a = "\<lparr>mtimeMs = 0, size_bytes = 1\<rparr>"
  let ?b = "(''b.mp4'', \<lparr>mtimeMs = 0, size_bytes = 1\<rparr>)"
  have d1: "distinct (map fst (videosDir (boot [?old, ?new] Map.empty Map.empty)))"
    by (simp add: boot_def)
  have d2: "distinct (map fst (videosDir (boot [?new, ?old, (''a.mp4'', ?a), ?b] Map.empty Map.empty)))"
    by (simp add: boot_def)
  have one: "videosDir (cleanup (boot [?old, ?new] Map.empty Map.empty) 90000000 []) = [?new]"
    using cleanup_sweep [OF d1, of 90000000 "[]"]
    by (simp add: boot_def expired_def age24h_def)
  have "videosDir (boot [?new, ?old, (''a.mp4'', ?a), ?b] Map.empty Map.empty) =
          [?new, ?old] @ (''a.mp4'', ?a) # [?b] \<and> expired 90000000 ?a \<and> ''a.mp4'' \<in> set [''a.mp4''] \<and>
        (\<forall>p \<in> set [?new, ?old]. expired 90000000 (snd p) \<longrightarrow> fst p \<notin> set [''a.mp4''])"
    by (simp add: boot_def expired_def age24h_def)
  then have two: "videosDir (cleanup (boot [?new, ?old, (''a.mp4'', ?a), ?b] Map.empty Map.empty) 90000000 [''a.mp4'']) =
      filter (\<lambda>p. \<not> expired 90000000 (snd p)) [?new, ?old] @ (''a.mp4'', ?a) # [?b]"
    using cleanup_sweep [OF d2, of 90000000 "[''a.mp4'']"] by blast
  show ?thesis using one two by (simp add: expired_def age24h_def)
qed

text \<open>
  C9 as stated fails: \<^verbatim>\<open>a.mp4\<close> and \<^verbatim>\<open>b.mp4\<close> are both 25 hours old, \<^verbatim>\<open>unlinkSync\<close>
  throws on \<^verbatim>\<open>a.mp4\<close>, and \<^verbatim>\<open>b.mp4\<close>, which could be removed, is still there after the
  sweep.
\<close>

theorem cleanup_abort_counterexample:
  "videosDir (cleanup (boot [(''a.mp4'', \<lparr>mtimeMs = 0, size_bytes = 1\<rparr>),
                             (''b.mp4'', \<lparr>mtimeMs = 0, size_bytes = 1\<rparr>)]
                        Map.empty Map.empty) 90000000 [''a.mp4'']) =
     [(''a.mp4'', \<lparr>mtimeMs = 0, size_bytes = 1\<rparr>), (''b.mp4'', \<lparr>mtimeMs = 0, size_bytes = 1\<rparr>)] \<and>
   expired 90000000 \<lparr>mtimeMs = 0, size_bytes = 1\<rparr> \<and> ''b.mp4'' \<notin> set [''a.mp4'']"
  by (simp add: cleanup_def boot_def age24h_def expired_def)

text \<open>
  C10 (amended). Once the placeholder file of a clip exists and no encoder is writing it,
  no run of the server synthesises it again or changes it: a generation that reaches the
  clip goes on without suspension and declares its own per-clip duration in the list,
  whatever the length of the media in the file. A generation suspends to synthesise a
  placeholder only for a clip that has no file, and the file then written has the
  per-clip duration of that generation.
\<close>

theorem placeholder_reuse:
  assumes "clipsDir s (clipFileName c) = Some d0" and "clipFileName c \<notin> set (synths s)"
  shows "clipsDir (run s evs) (clipFileName c) = Some d0 \<and>
         clipFileName c \<notin> set (synths (run s evs)) \<and>
         (\<forall>t cs content wr.
            run_loop (run s evs) t (c # cs) content wr =
            run_loop (run s evs) t cs
              (content @ manifest_entry (clipFileName c) (durationPerClip (t_count t))) wr) \<and>
         (\<forall>s' t c' cs content wr. clipsDir s' (clipFileName c') = None \<longrightarrow>
            run_loop s' t (c' # cs) content wr =
              (s'\<lparr>tasks := tasks s' @ [t\<lparr>t_phase := AwaitSynth c' cs content\<rparr>]\<rparr>, Suspended)) \<and>
         (\<forall>s' vid t c' rest content.
            find_task vid (tasks s') = Some t \<and> t_phase t = AwaitSynth c' rest content \<longrightarrow>
            clipsDir (step s' (SynthWrites vid)) (clipFileName c') = Some (durationPerClip (t_count t)))"
proof -
  have "settled (clipFileName c) d0 (run s evs)"
    using assms settled_run [of "clipFileName c" d0 s evs] by (simp add: settled_def)
  then have keep: "clipsDir (run s evs) (clipFileName c) = Some d0"
    "clipFileName c \<notin> set (synths (run s evs))"
    by (simp_all add: settled_def)
  have reuse: "run_loop (run s evs) t (c # cs) content wr =
            run_loop (run s evs) t cs
              (content @ manifest_entry (clipFileName c) (durationPerClip (t_count t))) wr"
    for t cs content wr
    using keep(1) by (simp add: run_loop_def)
  have absent: "run_loop s' t (c' # cs) content wr =
              (s'\<lparr>tasks := tasks s' @ [t\<lparr>t_phase := AwaitSynth c' cs content\<rparr>]\<rparr>, Suspended)"
    if "clipsDir s' (clipFileName c') = None" for s' t c' cs content wr
    using that by (simp add: run_loop_def)
  have wr: "clipsDir (step s' (SynthWrites vid)) (clipFileName c') = Some (durationPerClip (t_count t))"
    if "find_task vid (tasks s') = Some t \<and> t_phase t = AwaitSynth c' rest content"
    for s' vid t c' rest content
    using that by (simp add: createTestClipVideo_def)
  show ?thesis using keep reuse absent wr by blast
qed

theorem placeholder_reuse_witness:
  "clipsDir (run fresh encode_ok) (clipFileName clip_a) = Some 20 \<and>
   clipFileName clip_a \<notin> set (synths (run fresh encode_ok)) \<and>
   clipsDir (run (run fresh encode_ok) [Request ''c1'' 1 1015000 1015000 None]) (clipFileName clip_a) = Some 20 \<and>
   tempDir (run (run fresh encode_ok) [Request ''c1'' 1 1015000 1015000 None]) ''c1_1min_1015000_list.txt'' =
     Some (manifest_entry ''clip_a.mp4'' 60)"
proof -
  have h: "clipsDir (run fresh encode_ok) (clipFileName clip_a) = Some 20"
    "clipFileName clip_a \<notin> set (synths (run fresh encode_ok))"
    by (simp_all add: state_encode_ok synths_def clipFileName_def clip_a_def sample_clip_def)
  have keep: "clipsDir (run (run fresh encode_ok) [Request ''c1'' 1 1015000 1015000 None]) (clipFileName clip_a) = Some 20"
    using placeholder_reuse [OF h, of "[Request ''c1'' 1 1015000 1015000 None]"] by blast
  have "tempDir (run (run fresh encode_ok) [Request ''c1'' 1 1015000 1015000 None]) ''c1_1min_1015000_list.txt'' =
     Some (manifest_entry ''clip_a.mp4'' 60)"
    unfolding state_encode_ok
    by (simp add: run_def model_defs clip_a_def clip_b_def clip_c_def sample_clip_def)
  then show ?thesis using h keep by simp
qed

text \<open>
  C10 as stated fails: two requests one millisecond apart both find no file for the clip,
  and two placeholder encoders run for the same file.
\<close>

theorem double_synthesis_counterexample:
  "synths (run fresh [CreateClip ''c1'' clip_a,
                      Request ''c1'' 0 1000000 1000000 None,
                      Request ''c1'' 0 1000001 1000001 None]) =
     [''clip_a.mp4'', ''clip_a.mp4'']"
  by (simp add: run_def fresh_def clip_a_def sample_clip_def synths_def model_defs)

end
